theory Spec2Isabelle
  imports Main "HOL-Library.Word"
begin

unbundle bit_operations_syntax

section \<open>fishhook: rebinding symbols of a running Mach-O image\<close>

text \<open>
  A shallow embedding of \<^verbatim>\<open>fishhook.c\<close> in its \<^verbatim>\<open>__LP64__\<close> configuration:
  pointers and \<^verbatim>\<open>uintptr_t\<close> are 64-bit words whose arithmetic wraps, \<^verbatim>\<open>uint\<close> and
  \<^verbatim>\<open>uint32_t\<close> are 32-bit words, \<^verbatim>\<open>int\<close> results are integers.

  The memory of the process is seen through typed views: pointer-sized cells (the
  symbol-pointer tables and the output slots of the rebinding requests, so that their
  aliasing is part of the model), 32-bit cells (the indirect symbol table and the
  \<^verbatim>\<open>n_strx\<close> field that starts every \<^verbatim>\<open>nlist_64\<close>) and C strings (the string table).
  The code writes pointer cells only; the views are taken to be disjoint, and memory
  faults are outside the model. A C string is the list of the bytes that follow the
  pointer; reading stops at the first NUL character, and the end of the list stands
  for a NUL as well.

  The functions that run a loop return an option: \<open>None\<close> is a run that does not
  return. Two loops of the source count with a 32-bit \<^verbatim>\<open>uint\<close> up to a 64-bit bound and
  are partial functions here; the loops over the load commands, the sections and the
  chain follow lists.
\<close>

subsection \<open>Machine types and platform constants\<close>

type_synonym addr = "64 word"
type_synonym uint = "32 word"
type_synonym vm_prot_t = "32 word"

definition NULL :: addr where "NULL = 0"

definition NUL :: char where "NUL = CHR 0x00"

text \<open>Segment names of \<^verbatim>\<open>mach-o/loader.h\<close> and of the source.\<close>

definition SEG_DATA :: string where "SEG_DATA = ''__DATA''"
definition SEG_LINKEDIT :: string where "SEG_LINKEDIT = ''__LINKEDIT''"
definition SEG_DATA_CONST :: string where "SEG_DATA_CONST = ''__DATA_CONST''"

definition SECTION_TYPE :: uint where "SECTION_TYPE = 0xff"
definition S_NON_LAZY_SYMBOL_POINTERS :: uint where "S_NON_LAZY_SYMBOL_POINTERS = 0x6"
definition S_LAZY_SYMBOL_POINTERS :: uint where "S_LAZY_SYMBOL_POINTERS = 0x7"

definition INDIRECT_SYMBOL_LOCAL :: uint where "INDIRECT_SYMBOL_LOCAL = 0x80000000"
definition INDIRECT_SYMBOL_ABS :: uint where "INDIRECT_SYMBOL_ABS = 0x40000000"

definition VM_PROT_READ :: vm_prot_t where "VM_PROT_READ = 0x01"
definition VM_PROT_WRITE :: vm_prot_t where "VM_PROT_WRITE = 0x02"
definition VM_PROT_EXECUTE :: vm_prot_t where "VM_PROT_EXECUTE = 0x04"

definition PROT_READ :: vm_prot_t where "PROT_READ = 0x01"
definition PROT_WRITE :: vm_prot_t where "PROT_WRITE = 0x02"
definition PROT_EXEC :: vm_prot_t where "PROT_EXEC = 0x04"

subsection \<open>C strings\<close>

text \<open>The characters read from a pointer: up to the first NUL.\<close>

definition c_str :: "string \<Rightarrow> string" where
  "c_str s = takeWhile (\<lambda>c. c \<noteq> NUL) s"

text \<open>\<^verbatim>\<open>strcmp\<close>: the sign of the first difference, 0 when both strings end together.\<close>

fun strcmp :: "string \<Rightarrow> string \<Rightarrow> int" where
  "strcmp [] [] = 0"
| "strcmp [] (b # bs) = (if b = NUL then 0 else - 1)"
| "strcmp (a # as) [] = (if a = NUL then 0 else 1)"
| "strcmp (a # as) (b # bs) =
     (if a \<noteq> b then (if (of_char a :: nat) < of_char b then - 1 else 1)
      else if a = NUL then 0
      else strcmp as bs)"

subsection \<open>Data of the source\<close>

text \<open>\<^verbatim>\<open>struct rebinding\<close> of \<^verbatim>\<open>fishhook.h\<close>: \<open>replaced\<close> is the address of the output slot.\<close>

record rebinding =
  name :: string
  replacement :: addr
  replaced :: addr

text \<open>
  \<^verbatim>\<open>struct rebindings_entry\<close>: a node of the chain. The chain is the list of its nodes from
  the head on; \<open>entry_addr\<close> is the address \<^verbatim>\<open>malloc\<close> gave the node, \<open>rebindings_addr\<close>
  the address of its copied array, and \<^verbatim>\<open>rebindings_nel\<close> is the length of \<open>rebindings\<close>.
\<close>

record rebindings_entry =
  entry_addr :: addr
  rebindings_addr :: addr
  rebindings :: "rebinding list"

record section_t =
  sect_segname :: string
  sect_addr :: addr
  sect_size :: addr
  sect_flags :: uint
  sect_reserved1 :: uint

record segment_command =
  segname :: string
  vmaddr :: addr
  fileoff :: addr
  sects :: "section_t list"

record symtab_command =
  symoff :: uint
  stroff :: uint

record dysymtab_command =
  nindirectsyms :: uint
  indirectsymoff :: uint

text \<open>A load command, told apart by its \<^verbatim>\<open>cmd\<close> field.\<close>

datatype load_command =
  LC_SEGMENT_64 segment_command
| LC_SYMTAB symtab_command
| LC_DYSYMTAB dysymtab_command
| LC_OTHER uint

text \<open>
  An image header: its \<^verbatim>\<open>ncmds\<close> load commands in order, and whether \<^verbatim>\<open>dladdr\<close> finds
  the header's address in a loaded image.
\<close>

record mach_header =
  dladdr_found :: bool
  load_commands :: "load_command list"

text \<open>
  The process: the typed views of its memory, the protection \<^verbatim>\<open>vm_region\<close> reports for
  an address (\<open>None\<close> when the query fails), the global \<^verbatim>\<open>_rebindings_head\<close>, the
  allocator (the results of the coming \<^verbatim>\<open>malloc\<close> calls, \<open>NULL\<close> for a failed one, and the
  blocks in use), and the loader (the loaded images with their slides, and the number of
  callbacks registered for added images).
\<close>

record process =
  ptr_mem :: "addr \<Rightarrow> addr"
  u32_mem :: "addr \<Rightarrow> uint"
  str_mem :: "addr \<Rightarrow> string"
  vm_prot :: "addr \<Rightarrow> vm_prot_t option"
  rebindings_head :: "rebindings_entry list"
  malloc_results :: "addr list"
  allocated :: "addr list"
  loaded_images :: "(mach_header \<times> addr) list"
  add_image_funcs :: nat

subsection \<open>The allocator and the registry\<close>

text \<open>
  \<^verbatim>\<open>malloc\<close> and \<^verbatim>\<open>free\<close> of the C library: a call of \<^verbatim>\<open>malloc\<close> takes the next result the
  process holds for it, and fails when there is none; \<^verbatim>\<open>free\<close> of \<open>NULL\<close> does nothing.
\<close>

definition malloc :: "process \<Rightarrow> addr \<times> process" where
  "malloc st =
     (case malloc_results st of
        [] \<Rightarrow> (NULL, st)
      | a # as \<Rightarrow>
          (a, st\<lparr>malloc_results := as,
                 allocated := (if a = NULL then allocated st else a # allocated st)\<rparr>))"

definition free :: "addr \<Rightarrow> process \<Rightarrow> process" where
  "free p st = (if p = NULL then st else st\<lparr>allocated := remove1 p (allocated st)\<rparr>)"

text \<open>The pointer to a chain: the address of its first node, \<open>NULL\<close> for the empty chain.\<close>

definition head_ptr :: "rebindings_entry list \<Rightarrow> addr" where
  "head_ptr chain = (case chain of [] \<Rightarrow> NULL | e # _ \<Rightarrow> entry_addr e)"

text \<open>
  \<^verbatim>\<open>prepend_rebindings\<close>: the status, the new value of \<^verbatim>\<open>*rebindings_head\<close> and the process.
\<close>

definition prepend_rebindings ::
  "rebindings_entry list \<Rightarrow> rebinding list \<Rightarrow> process \<Rightarrow> int \<times> rebindings_entry list \<times> process"
where
  "prepend_rebindings rebindings_head_arg rebindings_arg st =
     (let (new_entry, st1) = malloc st in
      if new_entry = NULL then (- 1, rebindings_head_arg, st1)
      else
        let (arr, st2) = malloc st1 in
        if arr = NULL then (- 1, rebindings_head_arg, free new_entry st2)
        else
          (0,
           \<lparr>entry_addr = new_entry, rebindings_addr = arr, rebindings = rebindings_arg\<rparr>
             # rebindings_head_arg,
           st2))"

subsection \<open>Memory protection\<close>

text \<open>
  \<^verbatim>\<open>get_protection\<close>: the protection \<^verbatim>\<open>vm_region_64\<close> reports for the address, and
  \<^verbatim>\<open>VM_PROT_READ\<close> when the query fails.
\<close>

definition get_protection :: "addr \<Rightarrow> process \<Rightarrow> vm_prot_t" where
  "get_protection sectionStart st =
     (case vm_prot st sectionStart of Some protection \<Rightarrow> protection | None \<Rightarrow> VM_PROT_READ)"

text \<open>
  \<^verbatim>\<open>mprotect\<close> on the range of \<open>len\<close> bytes from \<open>a\<close>; it is taken to succeed, and the
  rounding to pages is left out.
\<close>

definition mprotect :: "addr \<Rightarrow> addr \<Rightarrow> vm_prot_t \<Rightarrow> process \<Rightarrow> process" where
  "mprotect a len p st =
     st\<lparr>vm_prot := (\<lambda>x. if x - a < len then Some p else vm_prot st x)\<rparr>"

subsection \<open>The pointer-table patcher\<close>

text \<open>\<^verbatim>\<open>symbol_name[0] && symbol_name[1]\<close>; the second byte is read only after the first.\<close>

definition symbol_name_longer_than_1 :: "string \<Rightarrow> bool" where
  "symbol_name_longer_than_1 symbol_name =
     (case symbol_name of
        [] \<Rightarrow> False
      | c0 # rest \<Rightarrow>
          c0 \<noteq> NUL \<and> (case rest of [] \<Rightarrow> False | c1 # _ \<Rightarrow> c1 \<noteq> NUL))"

text \<open>The test of the inner loop: \<^verbatim>\<open>&symbol_name[1]\<close> is the string from the second byte on.\<close>

definition name_matches :: "string \<Rightarrow> rebinding \<Rightarrow> bool" where
  "name_matches symbol_name r =
     (symbol_name_longer_than_1 symbol_name \<and> strcmp (tl symbol_name) (name r) = 0)"

text \<open>
  The body of the match: the slot's current value goes to the output slot when there is
  one and the value is not the replacement, then the replacement goes into the slot.
  \<open>slot\<close> is the address \<^verbatim>\<open>&indirect_symbol_bindings[i]\<close>.
\<close>

definition apply_rebinding :: "rebinding \<Rightarrow> addr \<Rightarrow> process \<Rightarrow> process" where
  "apply_rebinding r slot st =
     (let st1 =
        (if replaced r \<noteq> NULL \<and> ptr_mem st slot \<noteq> replacement r
         then st\<lparr>ptr_mem := (ptr_mem st)(replaced r := ptr_mem st slot)\<rparr>
         else st)
      in st1\<lparr>ptr_mem := (ptr_mem st1)(slot := replacement r)\<rparr>)"

text \<open>
  The loop \<^verbatim>\<open>for (uint j = 0; j < cur->rebindings_nel; j++)\<close> from \<open>j\<close> on. The counter has
  32 bits and \<^verbatim>\<open>rebindings_nel\<close> is a \<^verbatim>\<open>size_t\<close>, so the counter wraps to 0 before it
  reaches a length of \<open>2 ^ 32\<close> or more, and the loop may not return: the result
  \<open>None\<close>. \<open>Some (True, st')\<close> is the jump to \<^verbatim>\<open>symbol_loop\<close> after a match,
  \<open>Some (False, st)\<close> the end of the array.
\<close>

partial_function (option) rebindings_loop ::
  "string \<Rightarrow> addr \<Rightarrow> rebinding list \<Rightarrow> uint \<Rightarrow> process \<Rightarrow> (bool \<times> process) option"
where
  "rebindings_loop symbol_name slot rs j st =
     (if unat j < length rs then
        (if name_matches symbol_name (rs ! unat j)
         then Some (True, apply_rebinding (rs ! unat j) slot st)
         else rebindings_loop symbol_name slot rs (j + 1) st)
      else Some (False, st))"

text \<open>The loop \<^verbatim>\<open>while (cur)\<close> over the chain, left at the first match.\<close>

fun chain_loop :: "string \<Rightarrow> addr \<Rightarrow> rebindings_entry list \<Rightarrow> process \<Rightarrow> process option" where
  "chain_loop symbol_name slot [] st = Some st"
| "chain_loop symbol_name slot (cur # next) st =
     (case rebindings_loop symbol_name slot (rebindings cur) 0 st of
        None \<Rightarrow> None
      | Some (matched, st') \<Rightarrow>
          if matched then Some st' else chain_loop symbol_name slot next st')"

definition is_sentinel :: "uint \<Rightarrow> bool" where
  "is_sentinel symtab_index =
     (symtab_index = INDIRECT_SYMBOL_ABS \<or> symtab_index = INDIRECT_SYMBOL_LOCAL \<or>
      symtab_index = (INDIRECT_SYMBOL_LOCAL OR INDIRECT_SYMBOL_ABS))"

text \<open>
  One round of the loop over the slots, for the index \<open>i\<close>: \<^verbatim>\<open>indirect_symbol_indices[i]\<close>
  is the 32-bit cell at \<open>indirect_symbol_indices + 4 * i\<close>, \<^verbatim>\<open>symtab[symtab_index]\<close> the
  16-byte \<^verbatim>\<open>nlist_64\<close> at \<open>symtab + 16 * symtab_index\<close>, whose first field is \<^verbatim>\<open>n_strx\<close>, and
  \<^verbatim>\<open>indirect_symbol_bindings[i]\<close> the pointer cell at \<open>indirect_symbol_bindings + 8 * i\<close>.
\<close>

definition rebind_slot ::
  "rebindings_entry list \<Rightarrow> addr \<Rightarrow> addr \<Rightarrow> addr \<Rightarrow> addr \<Rightarrow> uint \<Rightarrow> process \<Rightarrow> process option"
where
  "rebind_slot rebindings_arg symtab strtab indirect_symbol_indices indirect_symbol_bindings i st =
     (let symtab_index = u32_mem st (indirect_symbol_indices + 4 * ucast i) in
      if is_sentinel symtab_index then Some st
      else
        let strtab_offset = u32_mem st (symtab + 16 * ucast symtab_index);
            symbol_name = str_mem st (strtab + ucast strtab_offset)
        in chain_loop symbol_name (indirect_symbol_bindings + 8 * ucast i) rebindings_arg st)"

text \<open>
  The loop \<^verbatim>\<open>for (uint i = 0; i < section->size / sizeof(void *); i++)\<close> from \<open>i\<close> on,
  with \<open>nslots\<close> the 64-bit bound. The 32-bit counter is widened for the comparison and
  wraps before it reaches a bound of \<open>2 ^ 32\<close> or more.
\<close>

partial_function (option) symbol_loop ::
  "rebindings_entry list \<Rightarrow> addr \<Rightarrow> addr \<Rightarrow> addr \<Rightarrow> addr \<Rightarrow> addr \<Rightarrow> uint \<Rightarrow> process
     \<Rightarrow> process option"
where
  "symbol_loop rebindings_arg symtab strtab indirect_symbol_indices indirect_symbol_bindings
       nslots i st =
     (if (ucast i :: addr) < nslots then
        (case rebind_slot rebindings_arg symtab strtab indirect_symbol_indices
                indirect_symbol_bindings i st of
           None \<Rightarrow> None
         | Some st' \<Rightarrow>
             symbol_loop rebindings_arg symtab strtab indirect_symbol_indices
               indirect_symbol_bindings nslots (i + 1) st')
      else Some st)"

text \<open>The protection given back at the end: the three bits of \<open>oldProtection\<close>, one by one.\<close>

definition restore_protection :: "vm_prot_t \<Rightarrow> vm_prot_t" where
  "restore_protection oldProtection =
     (let protection = 0;
          protection = (if oldProtection AND VM_PROT_READ \<noteq> 0
                        then protection OR PROT_READ else protection);
          protection = (if oldProtection AND VM_PROT_WRITE \<noteq> 0
                        then protection OR PROT_WRITE else protection);
          protection = (if oldProtection AND VM_PROT_EXECUTE \<noteq> 0
                        then protection OR PROT_EXEC else protection)
      in protection)"

text \<open>
  \<^verbatim>\<open>perform_rebinding_with_section\<close>. The argument of \<^verbatim>\<open>get_protection\<close> is the pointer
  \<^verbatim>\<open>rebindings\<close>, as in the source.
\<close>

definition perform_rebinding_with_section ::
  "rebindings_entry list \<Rightarrow> section_t \<Rightarrow> addr \<Rightarrow> addr \<Rightarrow> addr \<Rightarrow> addr \<Rightarrow> process
     \<Rightarrow> process option"
where
  "perform_rebinding_with_section rebindings_arg section slide symtab strtab indirect_symtab st =
     (let isDataConst = (strcmp (sect_segname section) SEG_DATA_CONST = 0);
          indirect_symbol_indices = indirect_symtab + 4 * ucast (sect_reserved1 section);
          indirect_symbol_bindings = slide + sect_addr section;
          oldProtection =
            (if isDataConst then get_protection (head_ptr rebindings_arg) st else VM_PROT_READ);
          st1 =
            (if isDataConst
             then mprotect indirect_symbol_bindings (sect_size section) (PROT_READ OR PROT_WRITE) st
             else st)
      in case symbol_loop rebindings_arg symtab strtab indirect_symbol_indices
                indirect_symbol_bindings (sect_size section div 8) 0 st1 of
           None \<Rightarrow> None
         | Some st2 \<Rightarrow>
             Some (if isDataConst
                   then mprotect indirect_symbol_bindings (sect_size section)
                          (restore_protection oldProtection) st2
                   else st2))"

subsection \<open>The pass over one image\<close>

text \<open>
  The first loop over the load commands: the locals \<^verbatim>\<open>linkedit_segment\<close>, \<^verbatim>\<open>symtab_cmd\<close> and
  \<^verbatim>\<open>dysymtab_cmd\<close>, each set by every command of its kind, so that the last one stays.
\<close>

fun find_commands ::
  "load_command list
     \<Rightarrow> segment_command option \<times> symtab_command option \<times> dysymtab_command option
     \<Rightarrow> segment_command option \<times> symtab_command option \<times> dysymtab_command option"
where
  "find_commands [] found = found"
| "find_commands (cur_seg_cmd # cmds) (linkedit_segment, symtab_cmd, dysymtab_cmd) =
     find_commands cmds
       (case cur_seg_cmd of
          LC_SEGMENT_64 seg \<Rightarrow>
            if strcmp (segname seg) SEG_LINKEDIT = 0
            then (Some seg, symtab_cmd, dysymtab_cmd)
            else (linkedit_segment, symtab_cmd, dysymtab_cmd)
        | LC_SYMTAB sc \<Rightarrow> (linkedit_segment, Some sc, dysymtab_cmd)
        | LC_DYSYMTAB dc \<Rightarrow> (linkedit_segment, symtab_cmd, Some dc)
        | LC_OTHER _ \<Rightarrow> (linkedit_segment, symtab_cmd, dysymtab_cmd))"

text \<open>The loop over the sections of a data segment; the two tests follow each other.\<close>

fun sections_loop ::
  "rebindings_entry list \<Rightarrow> addr \<Rightarrow> addr \<Rightarrow> addr \<Rightarrow> addr \<Rightarrow> section_t list \<Rightarrow> process
     \<Rightarrow> process option"
where
  "sections_loop rebindings_arg slide symtab strtab indirect_symtab [] st = Some st"
| "sections_loop rebindings_arg slide symtab strtab indirect_symtab (sect # rest) st =
     (case (if sect_flags sect AND SECTION_TYPE = S_LAZY_SYMBOL_POINTERS
            then perform_rebinding_with_section rebindings_arg sect slide symtab strtab
                   indirect_symtab st
            else Some st) of
        None \<Rightarrow> None
      | Some st1 \<Rightarrow>
          (case (if sect_flags sect AND SECTION_TYPE = S_NON_LAZY_SYMBOL_POINTERS
                 then perform_rebinding_with_section rebindings_arg sect slide symtab strtab
                        indirect_symtab st1
                 else Some st1) of
             None \<Rightarrow> None
           | Some st2 \<Rightarrow>
               sections_loop rebindings_arg slide symtab strtab indirect_symtab rest st2))"

text \<open>The second loop over the load commands.\<close>

fun segments_loop ::
  "rebindings_entry list \<Rightarrow> addr \<Rightarrow> addr \<Rightarrow> addr \<Rightarrow> addr \<Rightarrow> load_command list \<Rightarrow> process
     \<Rightarrow> process option"
where
  "segments_loop rebindings_arg slide symtab strtab indirect_symtab [] st = Some st"
| "segments_loop rebindings_arg slide symtab strtab indirect_symtab (cur_seg_cmd # cmds) st =
     (case cur_seg_cmd of
        LC_SEGMENT_64 seg \<Rightarrow>
          if strcmp (segname seg) SEG_DATA \<noteq> 0 \<and> strcmp (segname seg) SEG_DATA_CONST \<noteq> 0
          then segments_loop rebindings_arg slide symtab strtab indirect_symtab cmds st
          else
            (case sections_loop rebindings_arg slide symtab strtab indirect_symtab (sects seg) st of
               None \<Rightarrow> None
             | Some st' \<Rightarrow>
                 segments_loop rebindings_arg slide symtab strtab indirect_symtab cmds st')
      | LC_SYMTAB _ \<Rightarrow> segments_loop rebindings_arg slide symtab strtab indirect_symtab cmds st
      | LC_DYSYMTAB _ \<Rightarrow> segments_loop rebindings_arg slide symtab strtab indirect_symtab cmds st
      | LC_OTHER _ \<Rightarrow> segments_loop rebindings_arg slide symtab strtab indirect_symtab cmds st)"

definition rebind_symbols_for_image ::
  "rebindings_entry list \<Rightarrow> mach_header \<Rightarrow> addr \<Rightarrow> process \<Rightarrow> process option"
where
  "rebind_symbols_for_image rebindings_arg header slide st =
     (if \<not> dladdr_found header then Some st
      else
        case find_commands (load_commands header) (None, None, None) of
          (Some linkedit_segment, Some symtab_cmd, Some dysymtab_cmd) \<Rightarrow>
            if nindirectsyms dysymtab_cmd = 0 then Some st
            else
              let linkedit_base = slide + vmaddr linkedit_segment - fileoff linkedit_segment;
                  symtab = linkedit_base + ucast (symoff symtab_cmd);
                  strtab = linkedit_base + ucast (stroff symtab_cmd);
                  indirect_symtab = linkedit_base + ucast (indirectsymoff dysymtab_cmd)
              in segments_loop rebindings_arg slide symtab strtab indirect_symtab
                   (load_commands header) st
        | _ \<Rightarrow> Some st)"

subsection \<open>The entry points\<close>

text \<open>\<^verbatim>\<open>_rebind_symbols_for_image\<close>: the pass with the global chain as it is at the call.\<close>

definition rebind_symbols_for_image_global :: "mach_header \<Rightarrow> addr \<Rightarrow> process \<Rightarrow> process option" where
  "rebind_symbols_for_image_global header slide st =
     rebind_symbols_for_image (rebindings_head st) header slide st"

text \<open>The calls of \<^verbatim>\<open>_rebind_symbols_for_image\<close> for the loaded images, in the loader's order.\<close>

fun images_loop :: "(mach_header \<times> addr) list \<Rightarrow> process \<Rightarrow> process option" where
  "images_loop [] st = Some st"
| "images_loop ((header, slide) # rest) st =
     (case rebind_symbols_for_image_global header slide st of
        None \<Rightarrow> None
      | Some st' \<Rightarrow> images_loop rest st')"

text \<open>
  \<^verbatim>\<open>_dyld_register_func_for_add_image\<close> with \<^verbatim>\<open>_rebind_symbols_for_image\<close>: the loader keeps
  the callback and calls it at once for every image already loaded.
\<close>

definition dyld_register_func_for_add_image :: "process \<Rightarrow> process option" where
  "dyld_register_func_for_add_image st =
     images_loop (loaded_images st) (st\<lparr>add_image_funcs := Suc (add_image_funcs st)\<rparr>)"

definition rebind_symbols_image ::
  "mach_header \<Rightarrow> addr \<Rightarrow> rebinding list \<Rightarrow> process \<Rightarrow> (int \<times> process) option"
where
  "rebind_symbols_image header slide rebindings_arg st =
     (let (retval, rebindings_head_local, st1) = prepend_rebindings [] rebindings_arg st in
      case rebind_symbols_for_image rebindings_head_local header slide st1 of
        None \<Rightarrow> None
      | Some st2 \<Rightarrow>
          let st3 = (case rebindings_head_local of
                       [] \<Rightarrow> st2
                     | e # _ \<Rightarrow> free (rebindings_addr e) st2);
              st4 = free (head_ptr rebindings_head_local) st3
          in Some (retval, st4))"

definition rebind_symbols :: "rebinding list \<Rightarrow> process \<Rightarrow> (int \<times> process) option" where
  "rebind_symbols rebindings_arg st =
     (let (retval, new_head, st1) = prepend_rebindings (rebindings_head st) rebindings_arg st;
          st2 = st1\<lparr>rebindings_head := new_head\<rparr>
      in if retval < 0 then Some (retval, st2)
         else
           case (if tl (rebindings_head st2) = []
                 then dyld_register_func_for_add_image st2
                 else images_loop (loaded_images st2) st2) of
             None \<Rightarrow> None
           | Some st3 \<Rightarrow> Some (retval, st3))"

section \<open>Notions used in the statements\<close>

text \<open>
  The slots a loop visits, one after the other: \<open>visit_slots body is st\<close> runs the body
  for every index of \<open>is\<close> in order and stops when a round does not return.
\<close>

fun visit_slots ::
  "(uint \<Rightarrow> process \<Rightarrow> process option) \<Rightarrow> uint list \<Rightarrow> process \<Rightarrow> process option"
where
  "visit_slots body [] st = Some st"
| "visit_slots body (i # is) st =
     (case body i st of None \<Rightarrow> None | Some st' \<Rightarrow> visit_slots body is st')"

text \<open>
  The lookup as the specification words it: the chain from its newest batch to its
  oldest, each batch in its own order, and the first request whose name matches.
\<close>

definition chain_requests :: "rebindings_entry list \<Rightarrow> rebinding list" where
  "chain_requests chain = concat (map rebindings chain)"

definition lookup_spec :: "rebindings_entry list \<Rightarrow> string \<Rightarrow> rebinding option" where
  "lookup_spec chain symbol_name = List.find (name_matches symbol_name) (chain_requests chain)"

text \<open>Sizes that the 32-bit loop counters reach without wrapping.\<close>

definition small_chain :: "rebindings_entry list \<Rightarrow> bool" where
  "small_chain chain = list_all (\<lambda>e. length (rebindings e) < 2 ^ 32) chain"

definition small_section :: "section_t \<Rightarrow> bool" where
  "small_section sect = (unat (sect_size sect div 8) < 2 ^ 32)"

definition small_image :: "mach_header \<Rightarrow> bool" where
  "small_image header =
     list_all (\<lambda>c. case c of
                     LC_SEGMENT_64 seg \<Rightarrow> list_all small_section (sects seg)
                   | LC_SYMTAB _ \<Rightarrow> True
                   | LC_DYSYMTAB _ \<Rightarrow> True
                   | LC_OTHER _ \<Rightarrow> True)
       (load_commands header)"

text \<open>
  Two states of the process that differ at most in the pointer cells and in the
  protections.
\<close>

definition same_but_memory :: "process \<Rightarrow> process \<Rightarrow> bool" where
  "same_but_memory st st' =
     (u32_mem st' = u32_mem st \<and> str_mem st' = str_mem st \<and>
      rebindings_head st' = rebindings_head st \<and> malloc_results st' = malloc_results st \<and>
      allocated st' = allocated st \<and> loaded_images st' = loaded_images st \<and>
      add_image_funcs st' = add_image_funcs st)"

text \<open>The load commands an image needs: which of them a list of commands holds.\<close>

definition is_linkedit_command :: "load_command \<Rightarrow> bool" where
  "is_linkedit_command c =
     (case c of
        LC_SEGMENT_64 seg \<Rightarrow> c_str (segname seg) = ''__LINKEDIT''
      | LC_SYMTAB _ \<Rightarrow> False
      | LC_DYSYMTAB _ \<Rightarrow> False
      | LC_OTHER _ \<Rightarrow> False)"

definition is_symtab_command :: "load_command \<Rightarrow> bool" where
  "is_symtab_command c =
     (case c of
        LC_SEGMENT_64 _ \<Rightarrow> False
      | LC_SYMTAB _ \<Rightarrow> True
      | LC_DYSYMTAB _ \<Rightarrow> False
      | LC_OTHER _ \<Rightarrow> False)"

definition dysymtab_commands :: "load_command list \<Rightarrow> dysymtab_command list" where
  "dysymtab_commands cmds =
     List.map_filter
       (\<lambda>c. case c of
               LC_SEGMENT_64 _ \<Rightarrow> None
             | LC_SYMTAB _ \<Rightarrow> None
             | LC_DYSYMTAB dc \<Rightarrow> Some dc
             | LC_OTHER _ \<Rightarrow> None)
       cmds"

text \<open>
  The addresses as the specification words them, over the integers: the base of the
  link-edit tables, a table at its offset from the base, the slot \<open>k\<close> of a pointer
  table, and the number of slots of the table. As an address, each is taken modulo
  \<open>2 ^ 64\<close> (\<open>word_of_int\<close>).
\<close>

definition linkedit_base_spec :: "addr \<Rightarrow> segment_command \<Rightarrow> int" where
  "linkedit_base_spec slide linkedit = uint slide + uint (vmaddr linkedit) - uint (fileoff linkedit)"

definition table_address_spec :: "int \<Rightarrow> uint \<Rightarrow> int" where
  "table_address_spec base tableOffset = base + uint tableOffset"

definition slot_address_spec :: "addr \<Rightarrow> section_t \<Rightarrow> nat \<Rightarrow> int" where
  "slot_address_spec slide sect k = uint slide + uint (sect_addr sect) + 8 * int k"

definition slot_count_spec :: "section_t \<Rightarrow> nat" where
  "slot_count_spec sect = unat (sect_size sect) div 8"

section \<open>A small image for the closed statements\<close>

text \<open>
  A process that holds one image at slide \<open>0x100000\<close>: link-edit base \<open>0x101000\<close>, symbol
  table at \<open>0x104100\<close>, string table at \<open>0x104200\<close>, indirect symbol table at \<open>0x104300\<close>, and
  one non-lazy pointer table of one slot at \<open>0x108000\<close>, bound to \<^verbatim>\<open>_open\<close> and holding the
  original function \<open>0xF000\<close>.
\<close>

definition demo_memory :: process where
  "demo_memory =
     \<lparr>ptr_mem = (\<lambda>_. 0)(0x108000 := 0xF000),
      u32_mem = (\<lambda>_. 0)(0x104300 := 5, 0x104150 := 0x10),
      str_mem = (\<lambda>_. [])(0x104210 := ''_open''),
      vm_prot = (\<lambda>_. None),
      rebindings_head = [],
      malloc_results = [],
      allocated = [],
      loaded_images = [],
      add_image_funcs = 0\<rparr>"

definition demo_chain :: "rebindings_entry list" where
  "demo_chain =
     [\<lparr>entry_addr = 0x7020, rebindings_addr = 0x7040,
       rebindings = [\<lparr>name = ''close'', replacement = 0xC200, replaced = 0x9010\<rparr>,
                     \<lparr>name = ''open'', replacement = 0xA200, replaced = 0x9008\<rparr>,
                     \<lparr>name = ''open'', replacement = 0xA300, replaced = 0x9018\<rparr>]\<rparr>,
      \<lparr>entry_addr = 0x7000, rebindings_addr = 0x7010,
       rebindings = [\<lparr>name = ''open'', replacement = 0xA100, replaced = 0x9000\<rparr>]\<rparr>]"

definition demo_section :: section_t where
  "demo_section =
     \<lparr>sect_segname = ''__DATA_CONST'', sect_addr = 0x8000, sect_size = 8,
      sect_flags = 0x6, sect_reserved1 = 0\<rparr>"

definition demo_linkedit_cmd :: load_command where
  "demo_linkedit_cmd =
     LC_SEGMENT_64 \<lparr>segname = ''__LINKEDIT'', vmaddr = 0x4000, fileoff = 0x3000, sects = []\<rparr>"

definition demo_symtab_cmd :: load_command where
  "demo_symtab_cmd = LC_SYMTAB \<lparr>symoff = 0x3100, stroff = 0x3200\<rparr>"

definition demo_dysymtab_cmd :: load_command where
  "demo_dysymtab_cmd = LC_DYSYMTAB \<lparr>nindirectsyms = 1, indirectsymoff = 0x3300\<rparr>"

definition demo_data_cmd :: load_command where
  "demo_data_cmd =
     LC_SEGMENT_64 \<lparr>segname = ''__DATA_CONST'', vmaddr = 0x8000, fileoff = 0x2000,
                    sects = [demo_section]\<rparr>"

definition demo_image :: mach_header where
  "demo_image =
     \<lparr>dladdr_found = True,
      load_commands = [demo_linkedit_cmd, demo_symtab_cmd, demo_dysymtab_cmd, demo_data_cmd]\<rparr>"

definition demo_slide :: addr where
  "demo_slide = 0x100000"

text \<open>The same memory with the slot's indirect entry set to \<^verbatim>\<open>INDIRECT_SYMBOL_LOCAL\<close>.\<close>

definition demo_sentinel_memory :: process where
  "demo_sentinel_memory = demo_memory\<lparr>u32_mem := (u32_mem demo_memory)(0x104300 := 0x80000000)\<rparr>"

text \<open>The process after two registrations, with their four blocks in use.\<close>

definition demo_registered :: process where
  "demo_registered = demo_memory\<lparr>rebindings_head := demo_chain, allocated := [0x7020, 0x7040, 0x7000, 0x7010]\<rparr>"

text \<open>The process with the image loaded and memory left for one registration.\<close>

definition demo_loaded :: process where
  "demo_loaded =
     demo_memory\<lparr>malloc_results := [0x7000, 0x7020],
                 loaded_images := [(demo_image, demo_slide)]\<rparr>"

text \<open>
  Two registrations for the same name, one after the other, on the process with the
  image loaded; and what is read afterwards: the slot and the two output slots.
\<close>

definition demo_two :: process where
  "demo_two = demo_loaded\<lparr>malloc_results := [0x7000, 0x7020, 0x7040, 0x7060]\<rparr>"

definition demo_after_first :: "process option" where
  "demo_after_first =
     map_option snd
       (rebind_symbols [\<lparr>name = ''open'', replacement = 0xA100, replaced = 0x9000\<rparr>] demo_two)"

definition demo_after_second :: "process option" where
  "demo_after_second =
     (case demo_after_first of
        None \<Rightarrow> None
      | Some st \<Rightarrow>
          map_option snd
            (rebind_symbols [\<lparr>name = ''open'', replacement = 0xA200, replaced = 0x9008\<rparr>] st))"

definition slot_and_outputs :: "process option \<Rightarrow> (addr \<times> addr \<times> addr) option" where
  "slot_and_outputs s =
     (case s of
        None \<Rightarrow> None
      | Some st \<Rightarrow> Some (ptr_mem st 0x108000, ptr_mem st 0x9000, ptr_mem st 0x9008))"

text \<open>
  Protections: the image's \<^verbatim>\<open>__DATA_CONST\<close> segment is mapped read-only from \<open>0x108000\<close>, the
  heap page that holds the nodes of the chain is mapped read-write from \<open>0x7000\<close>.
\<close>

definition demo_protection :: "addr \<Rightarrow> vm_prot_t option" where
  "demo_protection a =
     (if a - 0x108000 < 0x4000 then Some VM_PROT_READ
      else if a - 0x7000 < 0x1000 then Some (VM_PROT_READ OR VM_PROT_WRITE)
      else None)"

definition demo_protected :: process where
  "demo_protected = demo_memory\<lparr>vm_prot := demo_protection\<rparr>"

definition table_protection :: "process option \<Rightarrow> vm_prot_t option" where
  "table_protection s = (case s of None \<Rightarrow> None | Some st \<Rightarrow> vm_prot st 0x108000)"

section \<open>The loops\<close>

lemma strcmp_eq_0: "strcmp a b = 0 \<longleftrightarrow> c_str a = c_str b"
  by (induction a b rule: strcmp.induct) (auto simp: c_str_def)

lemma find_append_case:
  "List.find P (xs @ ys) = (case List.find P xs of None \<Rightarrow> List.find P ys | Some x \<Rightarrow> Some x)"
  by (induction xs) auto

text \<open>The loop over one batch finds the first matching request from \<open>k\<close> on.\<close>

lemma rebindings_loop_find:
  assumes "length rs < 2 ^ 32"
  shows "k \<le> length rs \<Longrightarrow>
    rebindings_loop nm slot rs (of_nat k) st =
      Some (case List.find (name_matches nm) (drop k rs) of
              None \<Rightarrow> (False, st)
            | Some r \<Rightarrow> (True, apply_rebinding r slot st))"
proof (induction "length rs - k" arbitrary: k)
  case 0
  then have "k = length rs" by simp
  then show ?case using assms
    by (subst rebindings_loop.simps) (simp add: unat_of_nat)
next
  case (Suc n)
  then have lt: "k < length rs" by simp
  then have k32: "k < 2 ^ 32" using assms by simp
  have dr: "drop k rs = rs ! k # drop (Suc k) rs"
    using lt by (simp add: Cons_nth_drop_Suc)
  have step: "(of_nat k :: uint) + 1 = of_nat (Suc k)" by simp
  have IH: "rebindings_loop nm slot rs (of_nat (Suc k)) st =
      Some (case List.find (name_matches nm) (drop (Suc k) rs) of
              None \<Rightarrow> (False, st)
            | Some r \<Rightarrow> (True, apply_rebinding r slot st))"
    using Suc lt by (intro Suc.hyps(1)) auto
  show ?case
    apply (subst rebindings_loop.simps)
    using lt k32 IH by (simp add: unat_of_nat dr step del: of_nat_Suc)
qed

lemma chain_loop_lookup:
  "small_chain chain \<Longrightarrow>
   chain_loop nm slot chain st =
     Some (case lookup_spec chain nm of None \<Rightarrow> st | Some r \<Rightarrow> apply_rebinding r slot st)"
proof (induction chain)
  case Nil
  then show ?case by (simp add: lookup_spec_def chain_requests_def)
next
  case (Cons e chain)
  then have len: "length (rebindings e) < 2 ^ 32" and rest: "small_chain chain"
    by (simp_all add: small_chain_def)
  have loop: "rebindings_loop nm slot (rebindings e) 0 st =
      Some (case List.find (name_matches nm) (rebindings e) of
              None \<Rightarrow> (False, st)
            | Some r \<Rightarrow> (True, apply_rebinding r slot st))"
    using rebindings_loop_find [OF len, of 0 nm slot st] by simp
  show ?case
    using Cons.IH [OF rest] loop
    by (simp add: lookup_spec_def chain_requests_def find_append_case split: option.splits)
qed

lemma ucast_uint_less:
  "k < 2 ^ 32 \<Longrightarrow> ((ucast (of_nat k :: uint) :: addr) < n) = (k < unat n)"
proof -
  assume k: "k < 2 ^ 32"
  have "k < 2 ^ 64" using k by simp
  then have "take_bit 64 k = k" by (simp add: take_bit_nat_eq_self)
  then show ?thesis using k
    by (simp add: word_less_nat_alt unat_of_nat unsigned_ucast_eq)
qed

text \<open>The loop over the slots visits the indices from \<open>k\<close> to the bound, in order.\<close>

lemma symbol_loop_visit:
  assumes "unat nslots < 2 ^ 32"
  shows "k \<le> unat nslots \<Longrightarrow>
    symbol_loop rb symtab strtab isi isb nslots (of_nat k) st =
      visit_slots (rebind_slot rb symtab strtab isi isb) (map of_nat [k..<unat nslots]) st"
proof (induction "unat nslots - k" arbitrary: k st)
  case 0
  then have ge: "\<not> k < unat nslots" and k32: "k < 2 ^ 32" using assms by simp_all
  have emp: "[k..<unat nslots] = []" using ge by simp
  show ?case
    by (subst symbol_loop.simps) (simp add: ucast_uint_less [OF k32] ge emp)
next
  case (Suc d)
  then have lt: "k < unat nslots" by simp
  then have k32: "k < 2 ^ 32" using assms by simp
  have up: "[k..<unat nslots] = k # [Suc k..<unat nslots]"
    using lt by (simp add: upt_conv_Cons)
  have step: "(of_nat k :: uint) + 1 = of_nat (Suc k)" by simp
  have IH: "\<And>st'. symbol_loop rb symtab strtab isi isb nslots (of_nat (Suc k)) st' =
      visit_slots (rebind_slot rb symtab strtab isi isb) (map of_nat [Suc k..<unat nslots]) st'"
    using Suc lt by (intro Suc.hyps(1)) auto
  show ?case
    apply (subst symbol_loop.simps)
    using lt k32 by (simp add: ucast_uint_less up step IH del: of_nat_Suc split: option.splits)
qed

section \<open>Names\<close>

lemma c_str_Cons: "c_str (c # s) = (if c = NUL then [] else c # c_str s)"
  by (simp add: c_str_def)

lemma longer_than_1_iff: "symbol_name_longer_than_1 s \<longleftrightarrow> 2 \<le> length (c_str s)"
  by (cases s; cases "tl s") (auto simp: symbol_name_longer_than_1_def c_str_Cons c_str_def)

lemma name_matches_iff:
  "name_matches s r \<longleftrightarrow> 2 \<le> length (c_str s) \<and> tl (c_str s) = c_str (name r)"
proof (cases s)
  case Nil
  then show ?thesis by (simp add: name_matches_def longer_than_1_iff c_str_def)
next
  case (Cons c rest)
  then show ?thesis
    by (auto simp: name_matches_def longer_than_1_iff strcmp_eq_0 c_str_Cons)
qed

lemma lookup_spec_no_match:
  "(\<And>r. \<not> name_matches s r) \<Longrightarrow> lookup_spec chain s = None"
  by (simp add: lookup_spec_def find_None_iff)

section \<open>What a pass leaves alone\<close>

lemma same_but_memory_refl [simp]: "same_but_memory st st"
  by (simp add: same_but_memory_def)

lemma same_but_memory_trans:
  "same_but_memory st st1 \<Longrightarrow> same_but_memory st1 st2 \<Longrightarrow> same_but_memory st st2"
  by (simp add: same_but_memory_def)

lemma apply_rebinding_frame:
  "same_but_memory st (apply_rebinding r slot st)"
  "vm_prot (apply_rebinding r slot st) = vm_prot st"
  "a \<noteq> slot \<Longrightarrow> a \<noteq> replaced r \<Longrightarrow> ptr_mem (apply_rebinding r slot st) a = ptr_mem st a"
  by (simp_all add: apply_rebinding_def same_but_memory_def Let_def)

lemma lookup_spec_in_chain:
  "lookup_spec chain s = Some r \<Longrightarrow> r \<in> set (chain_requests chain) \<and> name_matches s r"
  by (auto simp: lookup_spec_def find_Some_iff)

lemma chain_loop_frame:
  assumes "small_chain chain"
  shows "\<exists>st'. chain_loop s slot chain st = Some st' \<and> same_but_memory st st' \<and>
           vm_prot st' = vm_prot st \<and>
           (\<forall>a. a \<notin> replaced ` set (chain_requests chain) \<and> a \<noteq> slot \<longrightarrow>
                ptr_mem st' a = ptr_mem st a)"
proof (cases "lookup_spec chain s")
  case None
  then show ?thesis using assms by (simp add: chain_loop_lookup)
next
  case (Some r)
  then have "r \<in> set (chain_requests chain)" by (simp add: lookup_spec_in_chain)
  then have "\<And>a. a \<notin> replaced ` set (chain_requests chain) \<Longrightarrow> a \<noteq> replaced r"
    by blast
  then show ?thesis using assms Some
    by (simp add: chain_loop_lookup apply_rebinding_frame)
qed

lemma rebind_slot_frame:
  assumes "small_chain chain"
  shows "\<exists>st'. rebind_slot chain symtab strtab isi isb i st = Some st' \<and>
           same_but_memory st st' \<and> vm_prot st' = vm_prot st \<and>
           (\<forall>a. a \<notin> replaced ` set (chain_requests chain) \<and>
                (is_sentinel (u32_mem st (isi + 4 * ucast i)) \<or> a \<noteq> isb + 8 * ucast i) \<longrightarrow>
                ptr_mem st' a = ptr_mem st a)"
proof (cases "is_sentinel (u32_mem st (isi + 4 * ucast i))")
  case True
  then show ?thesis by (simp add: rebind_slot_def)
next
  case False
  then show ?thesis
    using chain_loop_frame [OF assms]
    by (simp add: rebind_slot_def Let_def)
qed

lemma visit_slots_frame:
  assumes "small_chain chain"
  shows "\<exists>st'. visit_slots (rebind_slot chain symtab strtab isi isb) is st = Some st' \<and>
           same_but_memory st st' \<and> vm_prot st' = vm_prot st \<and>
           (\<forall>a. a \<notin> replaced ` set (chain_requests chain) \<and>
                (\<forall>i \<in> set is. is_sentinel (u32_mem st (isi + 4 * ucast i)) \<or>
                                a \<noteq> isb + 8 * ucast i) \<longrightarrow>
                ptr_mem st' a = ptr_mem st a)"
proof (induction "is" arbitrary: st)
  case Nil
  then show ?case by simp
next
  case (Cons i "is")
  obtain st1 where
    r1: "rebind_slot chain symtab strtab isi isb i st = Some st1" and
    s1: "same_but_memory st st1" and v1: "vm_prot st1 = vm_prot st" and
    p1: "\<And>a. a \<notin> replaced ` set (chain_requests chain) \<Longrightarrow>
           is_sentinel (u32_mem st (isi + 4 * ucast i)) \<or> a \<noteq> isb + 8 * ucast i \<Longrightarrow>
           ptr_mem st1 a = ptr_mem st a"
    using rebind_slot_frame [OF assms, of symtab strtab isi isb i st] by blast
  obtain st2 where
    r2: "visit_slots (rebind_slot chain symtab strtab isi isb) is st1 = Some st2" and
    s2: "same_but_memory st1 st2" and v2: "vm_prot st2 = vm_prot st1" and
    p2: "\<And>a. a \<notin> replaced ` set (chain_requests chain) \<Longrightarrow>
           (\<forall>i \<in> set is. is_sentinel (u32_mem st1 (isi + 4 * ucast i)) \<or>
                                a \<noteq> isb + 8 * ucast i) \<Longrightarrow>
           ptr_mem st2 a = ptr_mem st1 a"
    using Cons.IH [of st1] by blast
  have u: "u32_mem st1 = u32_mem st" using s1 by (simp add: same_but_memory_def)
  show ?case
    using r1 r2 same_but_memory_trans [OF s1 s2] v1 v2 p1 p2 u
    by auto
qed

section \<open>The pass over one section\<close>

lemma unat_8_ucast: "unat (8 * (ucast (i :: uint) :: addr)) = 8 * unat i"
proof -
  have "unat i < 2 ^ 32" using unsigned_less [of i] by simp
  then have "8 * unat i < 2 ^ 64" by simp
  then show ?thesis
    by (simp add: unat_word_ariths unsigned_ucast_eq take_bit_nat_eq_self)
qed

lemma mult8_ucast_inj:
  "((8 :: addr) * ucast (i :: uint) = 8 * ucast j) \<longleftrightarrow> i = j"
proof
  assume "(8 :: addr) * ucast i = 8 * ucast j"
  then have "unat (8 * ucast i :: addr) = unat (8 * ucast j :: addr)" by simp
  then have "unat i = unat j" by (simp add: unat_8_ucast)
  then show "i = j" by (simp add: word_unat_eq_iff)
qed simp

lemma mprotect_frame:
  "same_but_memory st (mprotect a len p st)"
  "ptr_mem (mprotect a len p st) = ptr_mem st"
  "u32_mem (mprotect a len p st) = u32_mem st"
  by (simp_all add: mprotect_def same_but_memory_def)

lemma perform_rebinding_visit:
  assumes "small_section sect"
  shows "perform_rebinding_with_section chain sect slide symtab strtab indirect_symtab st =
     (let isDataConst = (strcmp (sect_segname sect) SEG_DATA_CONST = 0);
          st1 = (if isDataConst
                 then mprotect (slide + sect_addr sect) (sect_size sect) (PROT_READ OR PROT_WRITE) st
                 else st)
      in case visit_slots
                (rebind_slot chain symtab strtab
                   (indirect_symtab + 4 * ucast (sect_reserved1 sect)) (slide + sect_addr sect))
                (map of_nat [0..<unat (sect_size sect div 8)]) st1 of
           None \<Rightarrow> None
         | Some st2 \<Rightarrow>
             Some (if isDataConst
                   then mprotect (slide + sect_addr sect) (sect_size sect)
                          (restore_protection (get_protection (head_ptr chain) st)) st2
                   else st2))"
  using symbol_loop_visit [of "sect_size sect div 8" 0] assms
  by (simp add: perform_rebinding_with_section_def Let_def small_section_def
        split: option.splits)

lemma perform_rebinding_frame:
  assumes "small_chain chain" "small_section sect"
  shows "\<exists>st'. perform_rebinding_with_section chain sect slide symtab strtab indirect_symtab st
             = Some st' \<and>
           same_but_memory st st' \<and>
           (\<forall>a. a \<notin> replaced ` set (chain_requests chain) \<and>
                (\<forall>k < unat (sect_size sect div 8).
                    is_sentinel (u32_mem st (indirect_symtab + 4 * ucast (sect_reserved1 sect)
                                               + 4 * ucast (of_nat k :: uint))) \<or>
                    a \<noteq> slide + sect_addr sect + 8 * ucast (of_nat k :: uint)) \<longrightarrow>
                ptr_mem st' a = ptr_mem st a)"
proof -
  define st1 where "st1 = (if strcmp (sect_segname sect) SEG_DATA_CONST = 0
                 then mprotect (slide + sect_addr sect) (sect_size sect) (PROT_READ OR PROT_WRITE) st
                 else st)"
  have s1: "same_but_memory st st1" and p1: "ptr_mem st1 = ptr_mem st"
    and u1: "u32_mem st1 = u32_mem st"
    by (simp_all add: st1_def mprotect_frame)
  obtain st2 where
    r2: "visit_slots (rebind_slot chain symtab strtab
                   (indirect_symtab + 4 * ucast (sect_reserved1 sect)) (slide + sect_addr sect))
                (map of_nat [0..<unat (sect_size sect div 8)]) st1 = Some st2" and
    s2: "same_but_memory st1 st2" and
    p2: "\<And>a. a \<notin> replaced ` set (chain_requests chain) \<Longrightarrow>
           (\<forall>i \<in> set (map of_nat [0..<unat (sect_size sect div 8)]).
               is_sentinel (u32_mem st1 (indirect_symtab + 4 * ucast (sect_reserved1 sect)
                                                + 4 * ucast (i :: uint))) \<or>
                                a \<noteq> slide + sect_addr sect + 8 * ucast i) \<Longrightarrow>
           ptr_mem st2 a = ptr_mem st1 a"
    using visit_slots_frame [OF assms(1), of symtab strtab
             "indirect_symtab + 4 * ucast (sect_reserved1 sect)" "slide + sect_addr sect"
             "map of_nat [0..<unat (sect_size sect div 8)]" st1]
    by blast
  have s02: "same_but_memory st st2" using s1 s2 by (rule same_but_memory_trans)
  have p02: "\<And>a. a \<notin> replaced ` set (chain_requests chain) \<Longrightarrow>
           (\<forall>k < unat (sect_size sect div 8).
               is_sentinel (u32_mem st (indirect_symtab + 4 * ucast (sect_reserved1 sect)
                                          + 4 * ucast (of_nat k :: uint))) \<or>
               a \<noteq> slide + sect_addr sect + 8 * ucast (of_nat k :: uint)) \<Longrightarrow>
           ptr_mem st2 a = ptr_mem st a"
    using p2 p1 u1 by auto
  have res: "perform_rebinding_with_section chain sect slide symtab strtab indirect_symtab st =
      Some (if strcmp (sect_segname sect) SEG_DATA_CONST = 0
            then mprotect (slide + sect_addr sect) (sect_size sect)
                   (restore_protection (get_protection (head_ptr chain) st)) st2
            else st2)"
    using r2 by (simp add: perform_rebinding_visit [OF assms(2)] Let_def st1_def [symmetric])
  have "same_but_memory st (if strcmp (sect_segname sect) SEG_DATA_CONST = 0
            then mprotect (slide + sect_addr sect) (sect_size sect)
                   (restore_protection (get_protection (head_ptr chain) st)) st2
            else st2)"
    using s02 same_but_memory_trans [OF s02 mprotect_frame(1)] by simp
  moreover have "ptr_mem (if strcmp (sect_segname sect) SEG_DATA_CONST = 0
            then mprotect (slide + sect_addr sect) (sect_size sect)
                   (restore_protection (get_protection (head_ptr chain) st)) st2
            else st2) = ptr_mem st2"
    by (simp add: mprotect_frame)
  ultimately show ?thesis
    using res p02 by auto
qed

section \<open>The load commands\<close>

lemma dysymtab_commands_Cons:
  "dysymtab_commands (c # cmds) =
     (case c of LC_DYSYMTAB dc \<Rightarrow> dc # dysymtab_commands cmds | _ \<Rightarrow> dysymtab_commands cmds)"
  by (simp add: dysymtab_commands_def List.map_filter_simps split: load_command.splits)

lemma dysymtab_commands_Nil [simp]: "dysymtab_commands [] = []"
  by (simp add: dysymtab_commands_def List.map_filter_simps)

lemma c_str_SEG_LINKEDIT: "c_str SEG_LINKEDIT = ''__LINKEDIT''"
  by (simp add: c_str_def SEG_LINKEDIT_def NUL_def)

lemma find_commands_found:
  "find_commands cmds (l, s, d) = (l', s', d') \<Longrightarrow>
     (l' = None \<longleftrightarrow> l = None \<and> \<not> list_ex is_linkedit_command cmds) \<and>
     (s' = None \<longleftrightarrow> s = None \<and> \<not> list_ex is_symtab_command cmds) \<and>
     d' = (if dysymtab_commands cmds = [] then d else Some (last (dysymtab_commands cmds)))"
proof (induction cmds arbitrary: l s d)
  case Nil
  then show ?case by simp
next
  case (Cons c cmds)
  show ?case
  proof (cases c)
    case (LC_SEGMENT_64 seg)
    then show ?thesis
      using Cons.prems Cons.IH [of "Some seg" s d] Cons.IH [of l s d]
      by (auto simp: is_linkedit_command_def is_symtab_command_def dysymtab_commands_Cons
            strcmp_eq_0 c_str_SEG_LINKEDIT split: if_splits)
  next
    case (LC_SYMTAB sc)
    then show ?thesis
      using Cons.prems Cons.IH [of l "Some sc" d]
      by (auto simp: is_linkedit_command_def is_symtab_command_def dysymtab_commands_Cons)
  next
    case (LC_DYSYMTAB dc)
    then show ?thesis
      using Cons.prems Cons.IH [of l s "Some dc"]
      by (auto simp: is_linkedit_command_def is_symtab_command_def dysymtab_commands_Cons)
  next
    case (LC_OTHER x)
    then show ?thesis
      using Cons.prems Cons.IH [of l s d]
      by (auto simp: is_linkedit_command_def is_symtab_command_def dysymtab_commands_Cons)
  qed
qed

section \<open>The pass over one image returns\<close>

lemma visit_slots_no_requests:
  assumes "small_chain chain" "chain_requests chain = []"
  shows "visit_slots (rebind_slot chain symtab strtab isi isb) is st = Some st"
proof -
  have "\<And>s slot st. chain_loop s slot chain st = Some st"
    using assms by (simp add: chain_loop_lookup lookup_spec_def)
  then have "\<And>i st. rebind_slot chain symtab strtab isi isb i st = Some st"
    by (simp add: rebind_slot_def Let_def)
  then show ?thesis by (induction "is") simp_all
qed

lemma mprotect_twice_frame:
  "same_but_memory st (mprotect a len p (mprotect a' len' p' st))"
  by (simp add: mprotect_def same_but_memory_def)

lemma perform_rebinding_total:
  assumes "small_chain chain" "small_section sect"
  shows "\<exists>st'. perform_rebinding_with_section chain sect slide symtab strtab indirect_symtab st
             = Some st' \<and>
           same_but_memory st st' \<and> (chain_requests chain = [] \<longrightarrow> ptr_mem st' = ptr_mem st)"
proof (cases "chain_requests chain = []")
  case True
  show ?thesis
    using True
    by (simp add: perform_rebinding_visit [OF assms(2)] Let_def mprotect_frame
          mprotect_twice_frame visit_slots_no_requests [OF assms(1) True])
next
  case False
  then show ?thesis
    using perform_rebinding_frame [OF assms, of slide symtab strtab indirect_symtab st]
    by blast
qed

lemma sections_loop_total:
  assumes "small_chain chain"
  shows "list_all small_section ss \<Longrightarrow>
         \<exists>st'. sections_loop chain slide symtab strtab indirect_symtab ss st = Some st' \<and>
           same_but_memory st st' \<and> (chain_requests chain = [] \<longrightarrow> ptr_mem st' = ptr_mem st)"
proof (induction ss arbitrary: st)
  case Nil
  then show ?case by simp
next
  case (Cons sect ss)
  then have sm: "small_section sect" and rest: "list_all small_section ss" by simp_all
  obtain st1 where
    r1: "(if sect_flags sect AND SECTION_TYPE = S_LAZY_SYMBOL_POINTERS
            then perform_rebinding_with_section chain sect slide symtab strtab
                   indirect_symtab st
            else Some st) = Some st1" and
    s1: "same_but_memory st st1" and
    p1: "chain_requests chain = [] \<longrightarrow> ptr_mem st1 = ptr_mem st"
    using perform_rebinding_total [OF assms sm, of slide symtab strtab indirect_symtab st]
    by (cases "sect_flags sect AND SECTION_TYPE = S_LAZY_SYMBOL_POINTERS") auto
  obtain st2 where
    r2: "(if sect_flags sect AND SECTION_TYPE = S_NON_LAZY_SYMBOL_POINTERS
            then perform_rebinding_with_section chain sect slide symtab strtab
                   indirect_symtab st1
            else Some st1) = Some st2" and
    s2: "same_but_memory st1 st2" and
    p2: "chain_requests chain = [] \<longrightarrow> ptr_mem st2 = ptr_mem st1"
    using perform_rebinding_total [OF assms sm, of slide symtab strtab indirect_symtab st1]
    by (cases "sect_flags sect AND SECTION_TYPE = S_NON_LAZY_SYMBOL_POINTERS") auto
  obtain st3 where
    r3: "sections_loop chain slide symtab strtab indirect_symtab ss st2 = Some st3" and
    s3: "same_but_memory st2 st3" and
    p3: "chain_requests chain = [] \<longrightarrow> ptr_mem st3 = ptr_mem st2"
    using Cons.IH [OF rest, of st2] by blast
  have "same_but_memory st st3"
    using s1 s2 s3 by (blast intro: same_but_memory_trans)
  then show ?case
    using r1 r2 r3 p1 p2 p3 by simp
qed

lemma segments_loop_total:
  assumes "small_chain chain"
  shows "list_all (\<lambda>c. case c of
                     LC_SEGMENT_64 seg \<Rightarrow> list_all small_section (sects seg)
                   | LC_SYMTAB _ \<Rightarrow> True
                   | LC_DYSYMTAB _ \<Rightarrow> True
                   | LC_OTHER _ \<Rightarrow> True) cmds \<Longrightarrow>
         \<exists>st'. segments_loop chain slide symtab strtab indirect_symtab cmds st = Some st' \<and>
           same_but_memory st st' \<and> (chain_requests chain = [] \<longrightarrow> ptr_mem st' = ptr_mem st)"
proof (induction cmds arbitrary: st)
  case Nil
  then show ?case by simp
next
  case (Cons c cmds)
  note IH = Cons.IH [OF Cons.prems [simplified, THEN conjunct2]]
  show ?case
  proof (cases c)
    case (LC_SEGMENT_64 seg)
    show ?thesis
    proof (cases "strcmp (segname seg) SEG_DATA \<noteq> 0 \<and> strcmp (segname seg) SEG_DATA_CONST \<noteq> 0")
      case True
      then show ?thesis using IH [of st] LC_SEGMENT_64 by simp
    next
      case False
      have "list_all small_section (sects seg)"
        using Cons.prems LC_SEGMENT_64 by simp
      then obtain st1 where
        r1: "sections_loop chain slide symtab strtab indirect_symtab (sects seg) st = Some st1" and
        s1: "same_but_memory st st1" and
        p1: "chain_requests chain = [] \<longrightarrow> ptr_mem st1 = ptr_mem st"
        using sections_loop_total [OF assms, of "sects seg" slide symtab strtab indirect_symtab st]
        by blast
      obtain st2 where
        r2: "segments_loop chain slide symtab strtab indirect_symtab cmds st1 = Some st2" and
        s2: "same_but_memory st1 st2" and
        p2: "chain_requests chain = [] \<longrightarrow> ptr_mem st2 = ptr_mem st1"
        using IH [of st1] by blast
      show ?thesis
        using False LC_SEGMENT_64 r1 r2 p1 p2 same_but_memory_trans [OF s1 s2] by auto
    qed
  next
    case (LC_SYMTAB x)
    then show ?thesis using IH [of st] by simp
  next
    case (LC_DYSYMTAB x)
    then show ?thesis using IH [of st] by simp
  next
    case (LC_OTHER x)
    then show ?thesis using IH [of st] by simp
  qed
qed

lemma image_pass_total:
  assumes "small_chain chain" "small_image header"
  shows "\<exists>st'. rebind_symbols_for_image chain header slide st = Some st' \<and>
           same_but_memory st st' \<and> (chain_requests chain = [] \<longrightarrow> ptr_mem st' = ptr_mem st)"
  using segments_loop_total [OF assms(1) assms(2) [unfolded small_image_def]]
  by (auto simp: rebind_symbols_for_image_def Let_def split: option.splits prod.splits)


lemma prepend_rebindings_fails:
  assumes "fst (malloc st) = NULL \<or> fst (malloc (snd (malloc st))) = NULL"
  shows "\<exists>st1. prepend_rebindings chain rs st = (- 1, chain, st1) \<and>
           ptr_mem st1 = ptr_mem st \<and> vm_prot st1 = vm_prot st \<and>
           allocated st1 = allocated st \<and> rebindings_head st1 = rebindings_head st \<and>
           add_image_funcs st1 = add_image_funcs st"
  using assms
  by (auto simp: prepend_rebindings_def malloc_def free_def Let_def NULL_def
        split: list.splits prod.splits if_splits)

lemma prepend_rebindings_succeeds:
  assumes "\<not> (fst (malloc st) = NULL \<or> fst (malloc (snd (malloc st))) = NULL)"
  shows "\<exists>a b st1. prepend_rebindings chain rs st =
             (0, \<lparr>entry_addr = a, rebindings_addr = b, rebindings = rs\<rparr> # chain, st1) \<and>
           a \<noteq> NULL \<and> b \<noteq> NULL \<and>
           ptr_mem st1 = ptr_mem st \<and> vm_prot st1 = vm_prot st \<and>
           u32_mem st1 = u32_mem st \<and> str_mem st1 = str_mem st \<and>
           loaded_images st1 = loaded_images st \<and>
           allocated st1 = b # a # allocated st \<and> rebindings_head st1 = rebindings_head st \<and>
           add_image_funcs st1 = add_image_funcs st"
  using assms
  by (auto simp: prepend_rebindings_def malloc_def free_def Let_def NULL_def
        split: list.splits prod.splits if_splits)

section \<open>Addresses\<close>

lemma linkedit_base_word:
  "(slide :: addr) + vmaddr ls - fileoff ls + ucast (off :: uint) =
     word_of_int (table_address_spec (linkedit_base_spec slide ls) off)"
  by (simp add: table_address_spec_def linkedit_base_spec_def)

lemma slot_address_word:
  "(slide :: addr) + sect_addr sect + 8 * ucast (i :: uint) =
     word_of_int (slot_address_spec slide sect (unat i))"
  by (simp add: slot_address_spec_def)

lemma slot_count_word: "unat (sect_size sect div 8) = slot_count_spec sect"
  by (simp add: slot_count_spec_def unat_div)

lemma visit_slots_cong:
  "(\<And>i s. f i s = g i s) \<Longrightarrow> visit_slots f is st = visit_slots g is st"
  by (induction "is" arbitrary: st) (simp_all split: option.splits)

section \<open>An image with one slot\<close>

lemma chain_loop_first_batch:
  assumes "List.find (name_matches s) (rebindings e) = Some r" "length (rebindings e) < 2 ^ 32"
  shows "chain_loop s slot (e # rest) st = Some (apply_rebinding r slot st)"
  using rebindings_loop_find [OF assms(2), of 0 s slot st] assms(1) by simp

lemma symbol_loop_one_slot:
  assumes "nslots = 1"
  shows "symbol_loop chain symtab strtab isi isb nslots 0 st =
           rebind_slot chain symtab strtab isi isb 0 st"
  using symbol_loop_visit [of nslots 0 chain symtab strtab isi isb st] assms
  by (simp split: option.splits)

lemma perform_rebinding_one_slot:
  assumes "sect_size sect div 8 = 1"
    and "rebind_slot chain symtab strtab (indirect_symtab + 4 * ucast (sect_reserved1 sect))
           (slide + sect_addr sect) 0 st1 = Some st2"
    and "st1 = (if strcmp (sect_segname sect) SEG_DATA_CONST = 0
                then mprotect (slide + sect_addr sect) (sect_size sect) (PROT_READ OR PROT_WRITE) st
                else st)"
  shows "\<exists>st3. perform_rebinding_with_section chain sect slide symtab strtab indirect_symtab st
                 = Some st3 \<and> ptr_mem st3 = ptr_mem st2"
  using assms(2)
  by (simp add: perform_rebinding_with_section_def Let_def symbol_loop_one_slot [OF assms(1)]
        assms(3) [symmetric] mprotect_frame)


lemma apply_rebinding_ptr_mem_cong:
  "ptr_mem s1 = ptr_mem s \<Longrightarrow>
   ptr_mem (apply_rebinding r slot s1) = ptr_mem (apply_rebinding r slot s)"
  by (simp add: apply_rebinding_def Let_def)

lemma c_str_segment_names:
  "c_str SEG_DATA = ''__DATA''" "c_str SEG_DATA_CONST = ''__DATA_CONST''"
  by (simp_all add: c_str_def SEG_DATA_def SEG_DATA_CONST_def NUL_def)

lemma one_slot_image_pass:
  assumes img: "load_commands header =
                  [LC_SEGMENT_64 linkedit, LC_SYMTAB sc, LC_DYSYMTAB dc, LC_SEGMENT_64 dataseg]"
    and dl: "dladdr_found header"
    and le: "c_str (segname linkedit) = ''__LINKEDIT''"
    and ds: "c_str (segname dataseg) = ''__DATA'' \<or> c_str (segname dataseg) = ''__DATA_CONST''"
    and ss: "sects dataseg = [sect]"
    and nl: "sect_flags sect AND SECTION_TYPE = S_NON_LAZY_SYMBOL_POINTERS"
    and one: "sect_size sect div 8 = 1"
    and ni: "nindirectsyms dc \<noteq> 0"
    and base: "base = slide + vmaddr linkedit - fileoff linkedit"
    and entry: "entry = u32_mem s (base + ucast (indirectsymoff dc)
                                      + 4 * ucast (sect_reserved1 sect))"
    and ns: "\<not> is_sentinel entry"
    and nm: "name_matches (str_mem s (base + ucast (stroff sc)
                 + ucast (u32_mem s (base + ucast (symoff sc) + 16 * ucast entry)))) r"
  shows "\<exists>s3. rebind_symbols_for_image
                (\<lparr>entry_addr = a, rebindings_addr = b, rebindings = [r]\<rparr> # rest)
                header slide s = Some s3 \<and>
              ptr_mem s3 = ptr_mem (apply_rebinding r (slide + sect_addr sect) s)"
proof -
  let ?chain = "\<lparr>entry_addr = a, rebindings_addr = b, rebindings = [r]\<rparr> # rest"
  let ?symtab = "base + ucast (symoff sc)"
  let ?strtab = "base + ucast (stroff sc)"
  let ?ist = "base + ucast (indirectsymoff dc)"
  let ?slot = "slide + sect_addr sect"
  have found: "find_commands (load_commands header) (None, None, None) =
                 (Some linkedit, Some sc, Some dc)"
    using le ds by (auto simp: img strcmp_eq_0 c_str_SEG_LINKEDIT)
  define s1 where "s1 = (if strcmp (sect_segname sect) SEG_DATA_CONST = 0
                then mprotect ?slot (sect_size sect) (PROT_READ OR PROT_WRITE) s
                else s)"
  have s1: "ptr_mem s1 = ptr_mem s" "u32_mem s1 = u32_mem s" "str_mem s1 = str_mem s"
    by (simp_all add: s1_def mprotect_def)
  have "rebind_slot ?chain ?symtab ?strtab (?ist + 4 * ucast (sect_reserved1 sect)) ?slot 0 s1 =
          Some (apply_rebinding r ?slot s1)"
  proof -
    have cl: "chain_loop nm' ?slot ?chain s1 = Some (apply_rebinding r ?slot s1)"
      if "name_matches nm' r" for nm'
      using that by (intro chain_loop_first_batch) simp_all
    show ?thesis
      using ns nm entry by (simp add: rebind_slot_def Let_def s1 cl del: chain_loop.simps)
  qed
  then obtain s3 where
    p: "perform_rebinding_with_section ?chain sect slide ?symtab ?strtab ?ist s = Some s3" and
    m: "ptr_mem s3 = ptr_mem (apply_rebinding r ?slot s1)"
    using perform_rebinding_one_slot [OF one _ s1_def] by blast
  have lazy: "sect_flags sect AND SECTION_TYPE \<noteq> S_LAZY_SYMBOL_POINTERS"
    using nl by (simp add: S_NON_LAZY_SYMBOL_POINTERS_def S_LAZY_SYMBOL_POINTERS_def)
  have skip: "strcmp (segname linkedit) SEG_DATA \<noteq> 0"
             "strcmp (segname linkedit) SEG_DATA_CONST \<noteq> 0"
    using le by (simp_all add: strcmp_eq_0 c_str_segment_names)
  have take: "\<not> (strcmp (segname dataseg) SEG_DATA \<noteq> 0 \<and>
                 strcmp (segname dataseg) SEG_DATA_CONST \<noteq> 0)"
    using ds by (auto simp: strcmp_eq_0 c_str_segment_names)
  have "rebind_symbols_for_image ?chain header slide s =
          segments_loop ?chain slide ?symtab ?strtab ?ist (load_commands header) s"
    using dl ni by (simp add: rebind_symbols_for_image_def found Let_def base)
  also have "\<dots> = Some s3"
    using p lazy nl skip take by (auto simp: img ss)
  finally have "rebind_symbols_for_image ?chain header slide s = Some s3" .
  then show ?thesis
    using m apply_rebinding_ptr_mem_cong [OF s1(1)] by simp
qed


lemma images_loop_single:
  "images_loop [(h, sl)] s = rebind_symbols_for_image (rebindings_head s) h sl s"
  by (simp add: rebind_symbols_for_image_global_def split: option.splits)

section \<open>Output slots and protections\<close>

lemma apply_rebinding_again:
  assumes "replaced r \<noteq> slot"
  shows "apply_rebinding r slot (apply_rebinding r slot st) = apply_rebinding r slot st"
  using assms by (simp add: apply_rebinding_def Let_def fun_upd_twist)

lemma protection_after_pass:
  assumes dc: "strcmp (sect_segname sect) SEG_DATA_CONST = 0"
    and sc: "small_chain chain" and ss: "small_section sect"
    and rng: "a - (slide + sect_addr sect) < sect_size sect"
  shows "\<exists>st'. perform_rebinding_with_section chain sect slide symtab strtab indirect_symtab st
                 = Some st' \<and>
              vm_prot st' a = Some (restore_protection (get_protection (head_ptr chain) st))"
proof -
  obtain st2 where
    "visit_slots (rebind_slot chain symtab strtab
                   (indirect_symtab + 4 * ucast (sect_reserved1 sect)) (slide + sect_addr sect))
                (map of_nat [0..<unat (sect_size sect div 8)])
                (mprotect (slide + sect_addr sect) (sect_size sect) (PROT_READ OR PROT_WRITE) st)
       = Some st2"
    using visit_slots_frame [OF sc] by blast
  then show ?thesis
    using dc rng by (simp add: perform_rebinding_visit [OF ss] Let_def mprotect_def)
qed


text \<open>The definitions that evaluate a run on the small image.\<close>

lemmas demo_defs =
  demo_two_def demo_loaded_def demo_memory_def demo_image_def demo_linkedit_cmd_def
  demo_symtab_cmd_def demo_dysymtab_cmd_def demo_data_cmd_def demo_section_def demo_slide_def

lemmas constant_defs =
  NULL_def NUL_def SEG_LINKEDIT_def SEG_DATA_def SEG_DATA_CONST_def
  SECTION_TYPE_def S_NON_LAZY_SYMBOL_POINTERS_def S_LAZY_SYMBOL_POINTERS_def
  INDIRECT_SYMBOL_ABS_def INDIRECT_SYMBOL_LOCAL_def
  VM_PROT_READ_def VM_PROT_WRITE_def VM_PROT_EXECUTE_def PROT_READ_def PROT_WRITE_def PROT_EXEC_def

lemmas code_defs =
  rebind_symbols_def prepend_rebindings_def malloc_def free_def Let_def
  dyld_register_func_for_add_image_def rebind_symbols_for_image_global_def
  rebind_symbols_for_image_def perform_rebinding_with_section_def head_ptr_def
  get_protection_def mprotect_def restore_protection_def
  symbol_loop.simps rebind_slot_def is_sentinel_def rebindings_loop.simps name_matches_def
  symbol_name_longer_than_1_def apply_rebinding_def

section \<open>Where the counters wrap\<close>

text \<open>
  The bounds in \<open>small_section\<close> and \<open>small_chain\<close> are the ones the loops need: with
  \<open>2 ^ 32\<close> slots or more the loop over the slots does not return, and neither does the
  loop over a batch of \<open>2 ^ 32\<close> requests or more when none of the first \<open>2 ^ 32\<close> matches.
\<close>

lemma ucast_uint_less_big:
  assumes "2 ^ 32 \<le> unat (nslots :: addr)"
  shows "(ucast (i :: uint) :: addr) < nslots"
proof -
  have "unat i < 2 ^ 32" using unsigned_less [of i] by simp
  then have "unat (ucast i :: addr) < unat nslots"
    using assms by (simp add: unsigned_ucast_eq take_bit_nat_eq_self)
  then show ?thesis by (simp add: word_less_nat_alt)
qed

lemma symbol_loop_wraps:
  assumes big: "2 ^ 32 \<le> unat nslots"
  shows "symbol_loop chain symtab strtab isi isb nslots i st = None"
proof -
  have "unat nslots < 2 ^ 32"
    if "symbol_loop chain symtab strtab isi isb nslots i st = Some y" for y
  proof (rule symbol_loop.raw_induct
      [where P = "\<lambda>chain symtab strtab isi isb nslots i st y. unat nslots < 2 ^ 32", OF _ that])
    fix f chain symtab strtab isi isb and nslots :: addr and i :: uint and st y
    assume IH: "\<And>chain symtab strtab isi isb nslots i st y.
                  f chain symtab strtab isi isb nslots i st = Some y \<Longrightarrow> unat nslots < 2 ^ 32"
      and step: "(if ucast i < nslots
                  then case rebind_slot chain symtab strtab isi isb i st of
                         None \<Rightarrow> None
                       | Some st' \<Rightarrow> f chain symtab strtab isi isb nslots (i + 1) st'
                  else Some st) = Some y"
    show "unat nslots < 2 ^ 32"
    proof (cases "(ucast i :: addr) < nslots")
      case True
      then show ?thesis using step IH by (auto split: option.splits)
    next
      case False
      then have "\<not> 2 ^ 32 \<le> unat nslots" using ucast_uint_less_big [of nslots i] by blast
      then show ?thesis by simp
    qed
  qed
  then show ?thesis using big by (cases "symbol_loop chain symtab strtab isi isb nslots i st") auto
qed


lemma rebindings_loop_wraps:
  assumes big: "2 ^ 32 \<le> length rs"
    and none: "\<And>k. k < 2 ^ 32 \<Longrightarrow> \<not> name_matches nm (rs ! k)"
  shows "rebindings_loop nm slot rs j st = None"
proof -
  have "\<not> (2 ^ 32 \<le> length rs \<and> (\<forall>k < 2 ^ 32. \<not> name_matches nm (rs ! k)))"
    if "rebindings_loop nm slot rs j st = Some y" for y
  proof (rule rebindings_loop.raw_induct
      [where P = "\<lambda>nm slot rs j st y.
                    \<not> (2 ^ 32 \<le> length rs \<and> (\<forall>k < 2 ^ 32. \<not> name_matches nm (rs ! k)))",
       OF _ that])
    fix f nm slot and rs :: "rebinding list" and j :: uint and st y
    assume IH: "\<And>nm slot rs j st y.
                  f nm slot rs j st = Some y \<Longrightarrow>
                  \<not> (2 ^ 32 \<le> length rs \<and> (\<forall>k < 2 ^ 32. \<not> name_matches nm (rs ! k)))"
      and step: "(if unat j < length rs
                  then if name_matches nm (rs ! unat j)
                       then Some (True, apply_rebinding (rs ! unat j) slot st)
                       else f nm slot rs (j + 1) st
                  else Some (False, st)) = Some y"
    have j32: "unat j < 2 ^ 32" using unsigned_less [of j] by simp
    show "\<not> (2 ^ 32 \<le> length rs \<and> (\<forall>k < 2 ^ 32. \<not> name_matches nm (rs ! k)))"
    proof
      assume a: "2 ^ 32 \<le> length rs \<and> (\<forall>k < 2 ^ 32. \<not> name_matches nm (rs ! k))"
      then have "unat j < length rs" "\<not> name_matches nm (rs ! unat j)"
        using j32 by auto
      then have "f nm slot rs (j + 1) st = Some y" using step by simp
      then show False using IH a by blast
    qed
  qed
  then show ?thesis
    using big none by (cases "rebindings_loop nm slot rs j st") auto
qed

section \<open>The claims\<close>

text \<open>
  C1. The code does not do what the claim says. For a section of \<^verbatim>\<open>__DATA_CONST\<close> the
  pass asks for the protection at the address of the chain's first node (the argument
  \<^verbatim>\<open>rebindings\<close> of \<^verbatim>\<open>get_protection\<close>, whose parameter is named \<^verbatim>\<open>sectionStart\<close>), not at
  the section. Here the segment is read-only before the pass, the node lies in a
  read-write heap page, and after the pass the table is readable and writable.
\<close>

theorem data_const_left_writable:
  "vm_prot demo_protected 0x108000 = Some VM_PROT_READ
   \<and> get_protection (demo_slide + sect_addr demo_section) demo_protected = VM_PROT_READ
   \<and> get_protection (head_ptr demo_chain) demo_protected = (VM_PROT_READ OR VM_PROT_WRITE)
   \<and> table_protection
        (perform_rebinding_with_section demo_chain demo_section demo_slide
           0x104100 0x104200 0x104300 demo_protected) = Some (PROT_READ OR PROT_WRITE)"
  by (simp add: table_protection_def demo_protected_def demo_protection_def demo_chain_def
        demo_defs constant_defs code_defs)


text \<open>
  C2. As stated, the claim fails: after a first registration for \<^verbatim>\<open>open\<close> has put its
  replacement \<open>0xA100\<close> into the slot and the original \<open>0xF000\<close> into its output slot, a
  second registration for the same name finds \<open>0xA100\<close> in the slot, which differs from
  its own replacement \<open>0xA200\<close>, and writes it to its output slot \<open>0x9008\<close>: the winning
  request's output slot holds the replacement installed before, not the original.
\<close>

theorem second_registration_captures_replacement:
  "slot_and_outputs (Some demo_two) = Some (0xF000, 0, 0)
   \<and> slot_and_outputs demo_after_first = Some (0xA100, 0xF000, 0)
   \<and> slot_and_outputs demo_after_second = Some (0xA200, 0xF000, 0xA100)"
  by (simp add: slot_and_outputs_def demo_after_second_def demo_after_first_def
        demo_defs constant_defs code_defs)

text \<open>
  C2, amended. The request that wins the lookup for a slot, when it has an output slot
  that is not the table slot itself: its output slot receives the slot's current value
  if that value differs from the request's own replacement, whatever the value is, and
  is left as it was if the slot already holds the replacement; the slot then holds
  the replacement, no other pointer cell is written, and a second scan with the same
  chain changes nothing.
\<close>

theorem output_slot_takes_current_value:
  assumes "small_chain chain"
    and "lookup_spec chain symbol_name = Some r"
    and "replaced r \<noteq> NULL"
    and "replaced r \<noteq> slot"
  shows "\<exists>st1. chain_loop symbol_name slot chain st = Some st1 \<and>
               ptr_mem st1 slot = replacement r \<and>
               ptr_mem st1 (replaced r) =
                 (if ptr_mem st slot \<noteq> replacement r then ptr_mem st slot
                  else ptr_mem st (replaced r)) \<and>
               (\<forall>a. a \<noteq> slot \<and> a \<noteq> replaced r \<longrightarrow> ptr_mem st1 a = ptr_mem st a) \<and>
               chain_loop symbol_name slot chain st1 = Some st1"
proof -
  have run: "chain_loop symbol_name slot chain s = Some (apply_rebinding r slot s)" for s
    using assms(1,2) by (simp add: chain_loop_lookup)
  have "ptr_mem (apply_rebinding r slot st) slot = replacement r"
    by (simp add: apply_rebinding_def Let_def)
  moreover have "ptr_mem (apply_rebinding r slot st) (replaced r) =
                 (if ptr_mem st slot \<noteq> replacement r then ptr_mem st slot
                  else ptr_mem st (replaced r))"
    using assms(3,4) by (simp add: apply_rebinding_def Let_def)
  moreover have "\<forall>a. a \<noteq> slot \<and> a \<noteq> replaced r \<longrightarrow>
                   ptr_mem (apply_rebinding r slot st) a = ptr_mem st a"
    by (simp add: apply_rebinding_frame)
  moreover have "chain_loop symbol_name slot chain (apply_rebinding r slot st) =
                 Some (apply_rebinding r slot st)"
    using assms(4) by (simp add: run apply_rebinding_again)
  ultimately show ?thesis using run by blast
qed

theorem output_slot_takes_current_value_witness:
  "small_chain demo_chain
   \<and> lookup_spec demo_chain ''_open'' =
       Some \<lparr>name = ''open'', replacement = 0xA200, replaced = 0x9008\<rparr>
   \<and> (\<exists>st1. chain_loop ''_open'' 0x108000 demo_chain demo_memory = Some st1 \<and>
             ptr_mem st1 0x108000 = 0xA200 \<and> ptr_mem st1 0x9008 = 0xF000 \<and>
             ptr_mem st1 0x9000 = ptr_mem demo_memory 0x9000 \<and>
             chain_loop ''_open'' 0x108000 demo_chain st1 = Some st1)"
proof -
  have small: "small_chain demo_chain"
    by (simp add: small_chain_def demo_chain_def)
  have look: "lookup_spec demo_chain ''_open'' =
          Some \<lparr>name = ''open'', replacement = 0xA200, replaced = 0x9008\<rparr>"
    by (simp add: lookup_spec_def chain_requests_def demo_chain_def name_matches_def
          symbol_name_longer_than_1_def NUL_def)
  have v: "ptr_mem demo_memory 0x108000 = 0xF000" by (simp add: demo_memory_def)
  obtain st1 where
    r: "chain_loop ''_open'' 0x108000 demo_chain demo_memory = Some st1" and
    s: "ptr_mem st1 0x108000 = 0xA200" and
    out: "ptr_mem st1 0x9008 = 0xF000" and
    fr: "\<forall>a. a \<noteq> 0x108000 \<and> a \<noteq> 0x9008 \<longrightarrow> ptr_mem st1 a = ptr_mem demo_memory a" and
    again: "chain_loop ''_open'' 0x108000 demo_chain st1 = Some st1"
    using output_slot_takes_current_value [OF small look, of "0x108000" demo_memory] v
    by (auto simp: NULL_def)
  have "ptr_mem st1 0x9000 = ptr_mem demo_memory 0x9000" using fr by simp
  then show ?thesis using small look r s out again by blast
qed


text \<open>
  C3. For a slot, the patcher scans the chain from the newest batch to the oldest and each
  batch in its own order, applies the first request whose name matches and nothing
  after it; a batch registered later is scanned before the older ones, which settles
  duplicate names.
\<close>

theorem lookup_newest_first:
  assumes "small_chain chain"
  shows "chain_loop symbol_name slot chain st =
           Some (case lookup_spec chain symbol_name of
                   None \<Rightarrow> st
                 | Some r \<Rightarrow> apply_rebinding r slot st)
         \<and> (case prepend_rebindings chain rs st of
              (retval, chain', st') \<Rightarrow>
                if retval = 0
                then lookup_spec chain' symbol_name =
                       (case List.find (name_matches symbol_name) rs of
                          None \<Rightarrow> lookup_spec chain symbol_name
                        | Some r \<Rightarrow> Some r)
                else chain' = chain)"
proof
  show "chain_loop symbol_name slot chain st =
           Some (case lookup_spec chain symbol_name of
                   None \<Rightarrow> st
                 | Some r \<Rightarrow> apply_rebinding r slot st)"
    using assms by (rule chain_loop_lookup)
next
  show "case prepend_rebindings chain rs st of
              (retval, chain', st') \<Rightarrow>
                if retval = 0
                then lookup_spec chain' symbol_name =
                       (case List.find (name_matches symbol_name) rs of
                          None \<Rightarrow> lookup_spec chain symbol_name
                        | Some r \<Rightarrow> Some r)
                else chain' = chain"
    by (simp add: prepend_rebindings_def Let_def lookup_spec_def chain_requests_def
          find_append_case split: prod.splits option.splits)
qed

theorem lookup_newest_first_witness:
  "small_chain demo_chain \<and>
   chain_loop ''_open'' 0x108000 demo_chain demo_memory =
     Some (apply_rebinding \<lparr>name = ''open'', replacement = 0xA200, replaced = 0x9008\<rparr>
             0x108000 demo_memory)"
proof -
  have small: "small_chain demo_chain"
    by (simp add: small_chain_def demo_chain_def)
  have "lookup_spec demo_chain ''_open'' =
          Some \<lparr>name = ''open'', replacement = 0xA200, replaced = 0x9008\<rparr>"
    by (simp add: lookup_spec_def chain_requests_def demo_chain_def name_matches_def
          symbol_name_longer_than_1_def NUL_def)
  then show ?thesis
    using small lookup_newest_first [OF small, of "''_open''" "0x108000" demo_memory "[]"]
    by simp
qed

text \<open>
  C4. Scenario A: the replacement \<open>R\<close> is registered for the name \<^verbatim>\<open>open\<close> with the output
  slot \<open>out\<close>, and the one loaded image has a non-lazy pointer table of one slot, bound
  to the symbol \<^verbatim>\<open>_open\<close> and holding the original function \<open>F\<close>. After the call the
  status is 0, the slot holds \<open>R\<close> and the output slot holds \<open>F\<close>. The original is another
  function than the replacement, and the output slot is a location of its own: not
  null and not the table slot.
\<close>

theorem scenario_open_rebound:
  assumes img: "load_commands header =
                  [LC_SEGMENT_64 linkedit, LC_SYMTAB sc, LC_DYSYMTAB dc, LC_SEGMENT_64 dataseg]"
    and dl: "dladdr_found header"
    and le: "c_str (segname linkedit) = ''__LINKEDIT''"
    and ds: "c_str (segname dataseg) = ''__DATA'' \<or> c_str (segname dataseg) = ''__DATA_CONST''"
    and ss: "sects dataseg = [sect]"
    and nl: "sect_flags sect AND SECTION_TYPE = S_NON_LAZY_SYMBOL_POINTERS"
    and one: "sect_size sect div 8 = 1"
    and ni: "nindirectsyms dc \<noteq> 0"
    and li: "loaded_images st = [(header, slide)]"
    and m1: "fst (malloc st) \<noteq> NULL"
    and m2: "fst (malloc (snd (malloc st))) \<noteq> NULL"
    and base: "base = slide + vmaddr linkedit - fileoff linkedit"
    and entry: "entry = u32_mem st (base + ucast (indirectsymoff dc)
                                       + 4 * ucast (sect_reserved1 sect))"
    and ns: "\<not> is_sentinel entry"
    and sym: "c_str (str_mem st (base + ucast (stroff sc)
                 + ucast (u32_mem st (base + ucast (symoff sc) + 16 * ucast entry)))) = ''_open''"
    and slot: "slot = slide + sect_addr sect"
    and orig: "ptr_mem st slot = F"
    and FR: "F \<noteq> R"
    and out: "out \<noteq> NULL" "out \<noteq> slot"
  shows "\<exists>st'. rebind_symbols [\<lparr>name = ''open'', replacement = R, replaced = out\<rparr>] st
                 = Some (0, st') \<and>
              ptr_mem st' slot = R \<and> ptr_mem st' out = F"
proof -
  let ?r = "\<lparr>name = ''open'', replacement = R, replaced = out\<rparr>"
  obtain a b st1 where
    p: "prepend_rebindings (rebindings_head st) [?r] st =
          (0, \<lparr>entry_addr = a, rebindings_addr = b, rebindings = [?r]\<rparr> # rebindings_head st,
           st1)" and
    f1: "ptr_mem st1 = ptr_mem st" "u32_mem st1 = u32_mem st" "str_mem st1 = str_mem st"
        "loaded_images st1 = loaded_images st"
    using prepend_rebindings_succeeds [of st "rebindings_head st" "[?r]"] m1 m2 by blast
  let ?chain = "\<lparr>entry_addr = a, rebindings_addr = b, rebindings = [?r]\<rparr> # rebindings_head st"
  define st2 where "st2 = st1\<lparr>rebindings_head := ?chain\<rparr>"
  define s where "s = (if tl ?chain = [] then st2\<lparr>add_image_funcs := Suc (add_image_funcs st2)\<rparr>
                       else st2)"
  have fs: "ptr_mem s = ptr_mem st" "u32_mem s = u32_mem st" "str_mem s = str_mem st"
    "rebindings_head s = ?chain"
    by (simp_all add: s_def st2_def f1)
  have nm: "name_matches (str_mem s (base + ucast (stroff sc)
                 + ucast (u32_mem s (base + ucast (symoff sc) + 16 * ucast entry)))) ?r"
    using sym by (simp add: fs name_matches_iff c_str_def NUL_def)
  obtain s3 where
    r: "rebind_symbols_for_image ?chain header slide s = Some s3" and
    m: "ptr_mem s3 = ptr_mem (apply_rebinding ?r (slide + sect_addr sect) s)"
    using one_slot_image_pass [OF img dl le ds ss nl one ni base _ ns nm, of a b "rebindings_head st"]
      entry
    by (auto simp: fs)
  have run: "(if tl (rebindings_head st2) = []
                 then dyld_register_func_for_add_image st2
                 else images_loop (loaded_images st2) st2) = Some s3"
    using r unfolding s_def st2_def
    by (auto simp: dyld_register_func_for_add_image_def f1 li images_loop_single
          simp del: images_loop.simps)
  have res: "rebind_symbols [?r] st = Some (0, s3)"
  proof -
    have h2: "rebindings_head st2 = ?chain" by (simp add: st2_def)
    show ?thesis
      using run by (auto simp: rebind_symbols_def p st2_def [symmetric] h2 split: if_splits)
  qed
  have "ptr_mem s3 slot = R" "ptr_mem s3 out = F"
    using orig FR out by (simp_all add: m slot apply_rebinding_def Let_def fs)
  then show ?thesis using res by blast
qed


theorem scenario_open_rebound_witness:
  "\<exists>st'. rebind_symbols [\<lparr>name = ''open'', replacement = 0xA100, replaced = 0x9000\<rparr>] demo_loaded
            = Some (0, st') \<and>
         ptr_mem st' 0x108000 = 0xA100 \<and> ptr_mem st' 0x9000 = 0xF000"
  by (rule scenario_open_rebound
        [where header = demo_image
           and linkedit = "\<lparr>segname = ''__LINKEDIT'', vmaddr = 0x4000, fileoff = 0x3000, sects = []\<rparr>"
           and sc = "\<lparr>symoff = 0x3100, stroff = 0x3200\<rparr>"
           and dc = "\<lparr>nindirectsyms = 1, indirectsymoff = 0x3300\<rparr>"
           and dataseg = "\<lparr>segname = ''__DATA_CONST'', vmaddr = 0x8000, fileoff = 0x2000,
                           sects = [demo_section]\<rparr>"
           and sect = demo_section and slide = demo_slide and base = "0x101000" and entry = 5
           and st = demo_loaded and slot = "0x108000" and F = "0xF000" and R = "0xA100"
           and out = "0x9000"])
     (simp_all add: demo_image_def demo_linkedit_cmd_def demo_symtab_cmd_def
        demo_dysymtab_cmd_def demo_data_cmd_def demo_section_def demo_slide_def
        demo_loaded_def demo_memory_def c_str_def NUL_def NULL_def malloc_def
        SECTION_TYPE_def S_NON_LAZY_SYMBOL_POINTERS_def is_sentinel_def
        INDIRECT_SYMBOL_ABS_def INDIRECT_SYMBOL_LOCAL_def)


text \<open>
  C5. A resolved symbol name matches a registered name when the symbol name without its
  first character equals the registered name; a symbol name of one character matches
  no registered name, and the scan of the chain leaves the process as it was.
\<close>

theorem match_strips_first_character:
  "name_matches symbol_name r =
     (2 \<le> length (c_str symbol_name) \<and> tl (c_str symbol_name) = c_str (name r))
   \<and> (length (c_str symbol_name) = 1 \<longrightarrow> \<not> name_matches symbol_name r)
   \<and> (length (c_str symbol_name) = 1 \<and> small_chain chain \<longrightarrow>
        chain_loop symbol_name slot chain st = Some st)"
proof (intro conjI impI)
  show "name_matches symbol_name r =
     (2 \<le> length (c_str symbol_name) \<and> tl (c_str symbol_name) = c_str (name r))"
    by (rule name_matches_iff)
next
  assume "length (c_str symbol_name) = 1"
  then show "\<not> name_matches symbol_name r" by (simp add: name_matches_iff)
next
  assume a: "length (c_str symbol_name) = 1 \<and> small_chain chain"
  then have "\<And>r. \<not> name_matches symbol_name r" by (simp add: name_matches_iff)
  then have "lookup_spec chain symbol_name = None" by (rule lookup_spec_no_match)
  then show "chain_loop symbol_name slot chain st = Some st"
    using a by (simp add: chain_loop_lookup)
qed

theorem match_strips_first_character_witness:
  "length (c_str ''_'') = 1 \<and> small_chain demo_chain
   \<and> \<not> name_matches ''_'' \<lparr>name = [], replacement = 0xA100, replaced = 0x9000\<rparr>
   \<and> chain_loop ''_'' 0x108000 demo_chain demo_memory = Some demo_memory
   \<and> name_matches ''_open'' \<lparr>name = ''open'', replacement = 0xA100, replaced = 0x9000\<rparr>"
proof -
  have len: "length (c_str ''_'') = 1" by (simp add: c_str_def NUL_def)
  have small: "small_chain demo_chain" by (simp add: small_chain_def demo_chain_def)
  have op: "name_matches ''_open'' \<lparr>name = ''open'', replacement = 0xA100, replaced = 0x9000\<rparr>"
    using match_strips_first_character
            [of "''_open''" "\<lparr>name = ''open'', replacement = 0xA100, replaced = 0x9000\<rparr>"]
    by (simp add: c_str_def NUL_def)
  show ?thesis
    using len small op
      match_strips_first_character
        [of "''_''" "\<lparr>name = [], replacement = 0xA100, replaced = 0x9000\<rparr>"
            demo_chain "0x108000" demo_memory]
    by simp
qed

text \<open>
  C6. A slot whose indirect-symbol-table entry is one of the three reserved values
  (absolute, local, local and absolute) is skipped: the round for it returns the
  process unchanged whatever the symbol table, the string table and the chain hold, and
  after the whole pass over the section the slot holds the pointer it held before,
  unless the slot is itself the output slot of a registered request.
\<close>

theorem sentinel_slots_skipped:
  "(u32_mem st (indirect_symbol_indices + 4 * ucast i) \<in> {0x40000000, 0x80000000, 0xC0000000}
      \<longrightarrow> rebind_slot chain symtab strtab indirect_symbol_indices indirect_symbol_bindings i st
            = Some st)
   \<and> (small_chain chain \<and> small_section sect \<and>
      u32_mem st (indirect_symtab + 4 * ucast (sect_reserved1 sect) + 4 * ucast i)
        \<in> {0x40000000, 0x80000000, 0xC0000000} \<and>
      slide + sect_addr sect + 8 * ucast i \<notin> replaced ` set (chain_requests chain)
      \<longrightarrow> (\<exists>st'. perform_rebinding_with_section chain sect slide symtab strtab indirect_symtab st
                   = Some st' \<and>
                ptr_mem st' (slide + sect_addr sect + 8 * ucast i) =
                  ptr_mem st (slide + sect_addr sect + 8 * ucast i)))"
proof (intro conjI impI)
  assume "u32_mem st (indirect_symbol_indices + 4 * ucast i) \<in> {0x40000000, 0x80000000, 0xC0000000}"
  then show "rebind_slot chain symtab strtab indirect_symbol_indices indirect_symbol_bindings i st
            = Some st"
    by (auto simp: rebind_slot_def is_sentinel_def INDIRECT_SYMBOL_ABS_def
          INDIRECT_SYMBOL_LOCAL_def)
next
  assume a: "small_chain chain \<and> small_section sect \<and>
      u32_mem st (indirect_symtab + 4 * ucast (sect_reserved1 sect) + 4 * ucast i)
        \<in> {0x40000000, 0x80000000, 0xC0000000} \<and>
      slide + sect_addr sect + 8 * ucast i \<notin> replaced ` set (chain_requests chain)"
  then have sent: "is_sentinel (u32_mem st (indirect_symtab + 4 * ucast (sect_reserved1 sect)
                      + 4 * ucast i))"
    by (auto simp: is_sentinel_def INDIRECT_SYMBOL_ABS_def INDIRECT_SYMBOL_LOCAL_def)
  have others: "\<forall>j :: uint. is_sentinel (u32_mem st (indirect_symtab + 4 * ucast (sect_reserved1 sect)
                                                + 4 * ucast j)) \<or>
                  slide + sect_addr sect + 8 * ucast i \<noteq> slide + sect_addr sect + 8 * ucast j"
    using sent by (auto simp: mult8_ucast_inj)
  show "\<exists>st'. perform_rebinding_with_section chain sect slide symtab strtab indirect_symtab st
                   = Some st' \<and>
                ptr_mem st' (slide + sect_addr sect + 8 * ucast i) =
                  ptr_mem st (slide + sect_addr sect + 8 * ucast i)"
    using perform_rebinding_frame [of chain sect slide symtab strtab indirect_symtab st] a others
    by blast
qed


theorem sentinel_slots_skipped_witness:
  "u32_mem demo_sentinel_memory (0x104300 + 4 * ucast (0 :: uint))
     \<in> {0x40000000, 0x80000000, 0xC0000000}
   \<and> small_chain demo_chain \<and> small_section demo_section
   \<and> demo_slide + sect_addr demo_section + 8 * ucast (0 :: uint)
        \<notin> replaced ` set (chain_requests demo_chain)
   \<and> rebind_slot demo_chain 0x104100 0x104200 0x104300 0x108000 0 demo_sentinel_memory
        = Some demo_sentinel_memory
   \<and> (\<exists>st'. perform_rebinding_with_section demo_chain demo_section demo_slide
                0x104100 0x104200 0x104300 demo_sentinel_memory = Some st' \<and>
             ptr_mem st' 0x108000 = 0xF000)"
proof -
  have h1: "u32_mem demo_sentinel_memory (0x104300 + 4 * ucast (0 :: uint))
     \<in> {0x40000000, 0x80000000, 0xC0000000}"
    by (simp add: demo_sentinel_memory_def demo_memory_def)
  have h2: "small_chain demo_chain" by (simp add: small_chain_def demo_chain_def)
  have h3: "small_section demo_section" by (simp add: small_section_def demo_section_def)
  have h4: "demo_slide + sect_addr demo_section + 8 * ucast (0 :: uint)
        \<notin> replaced ` set (chain_requests demo_chain)"
    by (simp add: chain_requests_def demo_chain_def demo_slide_def demo_section_def)
  have h5: "u32_mem demo_sentinel_memory
              (0x104300 + 4 * ucast (sect_reserved1 demo_section) + 4 * ucast (0 :: uint))
     \<in> {0x40000000, 0x80000000, 0xC0000000}"
    by (simp add: demo_sentinel_memory_def demo_memory_def demo_section_def)
  have v: "ptr_mem demo_sentinel_memory 0x108000 = 0xF000"
    by (simp add: demo_sentinel_memory_def demo_memory_def)
  have a: "demo_slide + sect_addr demo_section + 8 * ucast (0 :: uint) = 0x108000"
    by (simp add: demo_slide_def demo_section_def)
  show ?thesis
    using h1 h2 h3 h4 h5 v a
      sentinel_slots_skipped
        [where st = demo_sentinel_memory and indirect_symbol_indices = "0x104300" and i = 0
           and chain = demo_chain and symtab = "0x104100" and strtab = "0x104200"
           and indirect_symbol_bindings = "0x108000" and sect = demo_section
           and indirect_symtab = "0x104300" and slide = demo_slide]
    by simp
qed


text \<open>
  C7. For an image without a link-edit segment command, without a symbol-table command
  or without a dynamic-symbol-table command, or whose indirect-symbol count is zero, the
  pass over the image returns and leaves the process, its pointer cells among the rest,
  as it was.
\<close>

theorem incomplete_image_skipped:
  assumes "\<not> list_ex is_linkedit_command (load_commands header) \<or>
           \<not> list_ex is_symtab_command (load_commands header) \<or>
           dysymtab_commands (load_commands header) = [] \<or>
           nindirectsyms (last (dysymtab_commands (load_commands header))) = 0"
  shows "rebind_symbols_for_image chain header slide st = Some st"
proof -
  obtain l s d where f: "find_commands (load_commands header) (None, None, None) = (l, s, d)"
    by (cases "find_commands (load_commands header) (None, None, None)") auto
  note found = find_commands_found [OF f]
  show ?thesis
  proof (cases "l = None \<or> s = None \<or> d = None")
    case True
    then show ?thesis
      by (auto simp: rebind_symbols_for_image_def f split: option.splits)
  next
    case False
    then obtain ls sc dc where some: "l = Some ls" "s = Some sc" "d = Some dc" by auto
    have "dc = last (dysymtab_commands (load_commands header))"
      using found some by (auto split: if_splits)
    moreover have "nindirectsyms (last (dysymtab_commands (load_commands header))) = 0"
      using assms found some by (auto split: if_splits)
    ultimately show ?thesis
      by (simp add: rebind_symbols_for_image_def f some)
  qed
qed

theorem incomplete_image_skipped_witness:
  "\<not> list_ex is_linkedit_command [demo_symtab_cmd, demo_dysymtab_cmd, demo_data_cmd]
   \<and> rebind_symbols_for_image demo_chain
        \<lparr>dladdr_found = True,
         load_commands = [demo_symtab_cmd, demo_dysymtab_cmd, demo_data_cmd]\<rparr>
        demo_slide demo_memory = Some demo_memory
   \<and> \<not> list_ex is_symtab_command [demo_linkedit_cmd, demo_dysymtab_cmd, demo_data_cmd]
   \<and> rebind_symbols_for_image demo_chain
        \<lparr>dladdr_found = True,
         load_commands = [demo_linkedit_cmd, demo_dysymtab_cmd, demo_data_cmd]\<rparr>
        demo_slide demo_memory = Some demo_memory
   \<and> dysymtab_commands [demo_linkedit_cmd, demo_symtab_cmd, demo_data_cmd] = []
   \<and> rebind_symbols_for_image demo_chain
        \<lparr>dladdr_found = True,
         load_commands = [demo_linkedit_cmd, demo_symtab_cmd, demo_data_cmd]\<rparr>
        demo_slide demo_memory = Some demo_memory
   \<and> nindirectsyms (last (dysymtab_commands
        [demo_linkedit_cmd, demo_symtab_cmd,
         LC_DYSYMTAB \<lparr>nindirectsyms = 0, indirectsymoff = 0x3300\<rparr>, demo_data_cmd])) = 0
   \<and> rebind_symbols_for_image demo_chain
        \<lparr>dladdr_found = True,
         load_commands = [demo_linkedit_cmd, demo_symtab_cmd,
           LC_DYSYMTAB \<lparr>nindirectsyms = 0, indirectsymoff = 0x3300\<rparr>, demo_data_cmd]\<rparr>
        demo_slide demo_memory = Some demo_memory"
proof -
  have h1: "\<not> list_ex is_linkedit_command [demo_symtab_cmd, demo_dysymtab_cmd, demo_data_cmd]"
    by (simp add: is_linkedit_command_def demo_symtab_cmd_def demo_dysymtab_cmd_def
          demo_data_cmd_def c_str_def NUL_def)
  have h2: "\<not> list_ex is_symtab_command [demo_linkedit_cmd, demo_dysymtab_cmd, demo_data_cmd]"
    by (simp add: is_symtab_command_def demo_linkedit_cmd_def demo_dysymtab_cmd_def
          demo_data_cmd_def)
  have h3: "dysymtab_commands [demo_linkedit_cmd, demo_symtab_cmd, demo_data_cmd] = []"
    by (simp add: dysymtab_commands_Cons demo_linkedit_cmd_def demo_symtab_cmd_def
          demo_data_cmd_def)
  have h4: "nindirectsyms (last (dysymtab_commands
        [demo_linkedit_cmd, demo_symtab_cmd,
         LC_DYSYMTAB \<lparr>nindirectsyms = 0, indirectsymoff = 0x3300\<rparr>, demo_data_cmd])) = 0"
    by (simp add: dysymtab_commands_Cons demo_linkedit_cmd_def demo_symtab_cmd_def
          demo_data_cmd_def)
  show ?thesis
    using h1 h2 h3 h4
      incomplete_image_skipped
        [of "\<lparr>dladdr_found = True,
              load_commands = [demo_symtab_cmd, demo_dysymtab_cmd, demo_data_cmd]\<rparr>"
            demo_chain demo_slide demo_memory]
      incomplete_image_skipped
        [of "\<lparr>dladdr_found = True,
              load_commands = [demo_linkedit_cmd, demo_dysymtab_cmd, demo_data_cmd]\<rparr>"
            demo_chain demo_slide demo_memory]
      incomplete_image_skipped
        [of "\<lparr>dladdr_found = True,
              load_commands = [demo_linkedit_cmd, demo_symtab_cmd, demo_data_cmd]\<rparr>"
            demo_chain demo_slide demo_memory]
      incomplete_image_skipped
        [of "\<lparr>dladdr_found = True,
              load_commands = [demo_linkedit_cmd, demo_symtab_cmd,
                LC_DYSYMTAB \<lparr>nindirectsyms = 0, indirectsymoff = 0x3300\<rparr>, demo_data_cmd]\<rparr>"
            demo_chain demo_slide demo_memory]
    by simp
qed

text \<open>
  C8. When the allocation of the node or of the copied array fails, the registration
  returns the negative status \<open>- 1\<close> and the global chain is the one before; nothing of
  the process changes but the allocator's record of the calls.
\<close>

theorem failed_allocation_keeps_registry:
  assumes "fst (malloc st) = NULL \<or> fst (malloc (snd (malloc st))) = NULL"
  shows "fst (prepend_rebindings chain rs st) = - 1
         \<and> fst (snd (prepend_rebindings chain rs st)) = chain
         \<and> (\<exists>st'. rebind_symbols rs st = Some (- 1, st') \<and>
                  rebindings_head st' = rebindings_head st \<and>
                  ptr_mem st' = ptr_mem st \<and> vm_prot st' = vm_prot st \<and>
                  allocated st' = allocated st \<and>
                  add_image_funcs st' = add_image_funcs st)"
  using assms
  by (auto simp: prepend_rebindings_def rebind_symbols_def malloc_def free_def Let_def NULL_def
        split: list.splits prod.splits if_splits)


theorem failed_allocation_keeps_registry_witness:
  "fst (malloc (demo_registered\<lparr>malloc_results := [0x7060, 0]\<rparr>)) \<noteq> NULL
   \<and> fst (malloc (snd (malloc (demo_registered\<lparr>malloc_results := [0x7060, 0]\<rparr>)))) = NULL
   \<and> (\<exists>st'. rebind_symbols [\<lparr>name = ''open'', replacement = 0xA400, replaced = 0x9020\<rparr>]
               (demo_registered\<lparr>malloc_results := [0x7060, 0]\<rparr>) = Some (- 1, st') \<and>
            rebindings_head st' = demo_chain \<and>
            allocated st' = [0x7020, 0x7040, 0x7000, 0x7010])"
proof -
  have h1: "fst (malloc (demo_registered\<lparr>malloc_results := [0x7060, 0]\<rparr>)) \<noteq> NULL"
    by (simp add: malloc_def NULL_def)
  have h2: "fst (malloc (snd (malloc (demo_registered\<lparr>malloc_results := [0x7060, 0]\<rparr>)))) = NULL"
    by (simp add: malloc_def NULL_def)
  have r: "rebindings_head (demo_registered\<lparr>malloc_results := [0x7060, 0]\<rparr>) = demo_chain"
    "allocated (demo_registered\<lparr>malloc_results := [0x7060, 0]\<rparr>) = [0x7020, 0x7040, 0x7000, 0x7010]"
    by (simp_all add: demo_registered_def)
  show ?thesis
    using h1 h2 r
      failed_allocation_keeps_registry
        [of "demo_registered\<lparr>malloc_results := [0x7060, 0]\<rparr>" "rebindings_head demo_registered"
            "[\<lparr>name = ''open'', replacement = 0xA400, replaced = 0x9020\<rparr>]"]
    by auto
qed


text \<open>
  C9. For an image that has the three commands, the pass works with the tables at the
  link-edit base \<open>slide + vmaddr - fileoff\<close> plus the offset of each table. The pass over a
  pointer section is the run over the slot indices \<open>0\<close> to \<open>size / 8 - 1\<close>, once each and in
  order, between the two changes of protection: the slot \<open>k\<close> is the pointer cell at
  \<open>slide + addr + 8 * k\<close>, and its entry of the indirect symbol table is the one at the
  index \<open>reserved1 + k\<close>. The pass writes no pointer cell but these slots and the output
  slots of the requests.
\<close>

theorem table_addresses:
  assumes "dladdr_found header"
    and "find_commands (load_commands header) (None, None, None) = (Some linkedit, Some sc, Some dc)"
    and "nindirectsyms dc \<noteq> 0"
  shows "rebind_symbols_for_image chain header slide st =
           segments_loop chain slide
             (word_of_int (table_address_spec (linkedit_base_spec slide linkedit) (symoff sc)))
             (word_of_int (table_address_spec (linkedit_base_spec slide linkedit) (stroff sc)))
             (word_of_int (table_address_spec (linkedit_base_spec slide linkedit)
                             (indirectsymoff dc)))
             (load_commands header) st
         \<and> (small_section sect \<longrightarrow>
              perform_rebinding_with_section chain sect slide symtab strtab indirect_symtab st1 =
                (let isDataConst = (strcmp (sect_segname sect) SEG_DATA_CONST = 0);
                     table = word_of_int (slot_address_spec slide sect 0);
                     unlocked =
                       (if isDataConst
                        then mprotect table (sect_size sect) (PROT_READ OR PROT_WRITE) st1
                        else st1)
                 in case visit_slots
                           (\<lambda>i s.
                              let entry = u32_mem s (indirect_symtab
                                            + 4 * ucast (sect_reserved1 sect) + 4 * ucast i)
                              in if is_sentinel entry then Some s
                                 else chain_loop
                                        (str_mem s (strtab + ucast
                                           (u32_mem s (symtab + 16 * ucast entry))))
                                        (word_of_int (slot_address_spec slide sect (unat i)))
                                        chain s)
                           (map of_nat [0..<slot_count_spec sect]) unlocked of
                      None \<Rightarrow> None
                    | Some st2 \<Rightarrow>
                        Some (if isDataConst
                              then mprotect table (sect_size sect)
                                     (restore_protection (get_protection (head_ptr chain) st1))
                                     st2
                              else st2)))
         \<and> (small_chain chain \<and> small_section sect \<longrightarrow>
              (\<exists>st2. perform_rebinding_with_section chain sect slide symtab strtab
                        indirect_symtab st1 = Some st2 \<and>
                     (\<forall>a. a \<notin> replaced ` set (chain_requests chain) \<and>
                          (\<forall>k < slot_count_spec sect.
                              a \<noteq> word_of_int (slot_address_spec slide sect k)) \<longrightarrow>
                          ptr_mem st2 a = ptr_mem st1 a)))"
proof (intro conjI impI)
  show "rebind_symbols_for_image chain header slide st =
           segments_loop chain slide
             (word_of_int (table_address_spec (linkedit_base_spec slide linkedit) (symoff sc)))
             (word_of_int (table_address_spec (linkedit_base_spec slide linkedit) (stroff sc)))
             (word_of_int (table_address_spec (linkedit_base_spec slide linkedit)
                             (indirectsymoff dc)))
             (load_commands header) st"
    using assms
    by (simp add: rebind_symbols_for_image_def Let_def linkedit_base_word [symmetric])
next
  assume sm: "small_section sect"
  have base: "word_of_int (slot_address_spec slide sect 0) = slide + sect_addr sect"
    by (simp add: slot_address_spec_def)
  have body: "visit_slots (rebind_slot chain symtab strtab
                   (indirect_symtab + 4 * ucast (sect_reserved1 sect)) (slide + sect_addr sect))
                is s =
              visit_slots
                (\<lambda>i s.
                   let entry = u32_mem s (indirect_symtab
                                 + 4 * ucast (sect_reserved1 sect) + 4 * ucast i)
                   in if is_sentinel entry then Some s
                      else chain_loop
                             (str_mem s (strtab + ucast
                                (u32_mem s (symtab + 16 * ucast entry))))
                             (word_of_int (slot_address_spec slide sect (unat i)))
                             chain s)
                is s" for "is" s
    by (rule visit_slots_cong) (simp add: rebind_slot_def Let_def slot_address_word)
  show "perform_rebinding_with_section chain sect slide symtab strtab indirect_symtab st1 =
                (let isDataConst = (strcmp (sect_segname sect) SEG_DATA_CONST = 0);
                     table = word_of_int (slot_address_spec slide sect 0);
                     unlocked =
                       (if isDataConst
                        then mprotect table (sect_size sect) (PROT_READ OR PROT_WRITE) st1
                        else st1)
                 in case visit_slots
                           (\<lambda>i s.
                              let entry = u32_mem s (indirect_symtab
                                            + 4 * ucast (sect_reserved1 sect) + 4 * ucast i)
                              in if is_sentinel entry then Some s
                                 else chain_loop
                                        (str_mem s (strtab + ucast
                                           (u32_mem s (symtab + 16 * ucast entry))))
                                        (word_of_int (slot_address_spec slide sect (unat i)))
                                        chain s)
                           (map of_nat [0..<slot_count_spec sect]) unlocked of
                      None \<Rightarrow> None
                    | Some st2 \<Rightarrow>
                        Some (if isDataConst
                              then mprotect table (sect_size sect)
                                     (restore_protection (get_protection (head_ptr chain) st1))
                                     st2
                              else st2))"
    unfolding perform_rebinding_visit [OF sm] base body slot_count_word Let_def ..
next
  assume a: "small_chain chain \<and> small_section sect"
  then have n32: "slot_count_spec sect < 2 ^ 32"
    by (simp add: small_section_def slot_count_word)
  obtain st2 where
    r: "perform_rebinding_with_section chain sect slide symtab strtab indirect_symtab st1
          = Some st2" and
    p: "\<And>a. a \<notin> replaced ` set (chain_requests chain) \<Longrightarrow>
           (\<forall>k < unat (sect_size sect div 8).
               is_sentinel (u32_mem st1 (indirect_symtab + 4 * ucast (sect_reserved1 sect)
                                          + 4 * ucast (of_nat k :: uint))) \<or>
               a \<noteq> slide + sect_addr sect + 8 * ucast (of_nat k :: uint)) \<Longrightarrow>
           ptr_mem st2 a = ptr_mem st1 a"
    using perform_rebinding_frame [of chain sect slide symtab strtab indirect_symtab st1] a
    by blast
  have addr: "slide + sect_addr sect + 8 * ucast (of_nat k :: uint)
                = word_of_int (slot_address_spec slide sect k)"
    if "k < slot_count_spec sect" for k
  proof -
    have "k < 2 ^ 32" using that n32 by simp
    then have "unat (of_nat k :: uint) = k" by (simp add: unat_of_nat)
    then show ?thesis using slot_address_word [of slide sect "of_nat k"] by simp
  qed
  have "\<forall>a. a \<notin> replaced ` set (chain_requests chain) \<and>
            (\<forall>k < slot_count_spec sect. a \<noteq> word_of_int (slot_address_spec slide sect k)) \<longrightarrow>
            ptr_mem st2 a = ptr_mem st1 a"
    using p addr by (simp add: slot_count_word)
  then show "\<exists>st2. perform_rebinding_with_section chain sect slide symtab strtab
                        indirect_symtab st1 = Some st2 \<and>
                     (\<forall>a. a \<notin> replaced ` set (chain_requests chain) \<and>
                          (\<forall>k < slot_count_spec sect.
                              a \<noteq> word_of_int (slot_address_spec slide sect k)) \<longrightarrow>
                          ptr_mem st2 a = ptr_mem st1 a)"
    using r by blast
qed


theorem table_addresses_witness:
  "dladdr_found demo_image
   \<and> find_commands (load_commands demo_image) (None, None, None) =
       (Some \<lparr>segname = ''__LINKEDIT'', vmaddr = 0x4000, fileoff = 0x3000, sects = []\<rparr>,
        Some \<lparr>symoff = 0x3100, stroff = 0x3200\<rparr>,
        Some \<lparr>nindirectsyms = 1, indirectsymoff = 0x3300\<rparr>)
   \<and> small_chain demo_chain \<and> small_section demo_section
   \<and> rebind_symbols_for_image demo_chain demo_image demo_slide demo_memory =
       segments_loop demo_chain demo_slide 0x104100 0x104200 0x104300
         (load_commands demo_image) demo_memory
   \<and> slot_count_spec demo_section = 1
   \<and> word_of_int (slot_address_spec demo_slide demo_section 0) = (0x108000 :: addr)
   \<and> slot_and_outputs
        (perform_rebinding_with_section demo_chain demo_section demo_slide
           0x104100 0x104200 0x104300 demo_memory) = Some (0xA200, 0, 0xF000)
   \<and> (\<exists>st2. perform_rebinding_with_section demo_chain demo_section demo_slide
                0x104100 0x104200 0x104300 demo_memory = Some st2 \<and>
             ptr_mem st2 0x108008 = ptr_mem demo_memory 0x108008)"
proof -
  have h1: "dladdr_found demo_image" by (simp add: demo_image_def)
  have h2: "find_commands (load_commands demo_image) (None, None, None) =
       (Some \<lparr>segname = ''__LINKEDIT'', vmaddr = 0x4000, fileoff = 0x3000, sects = []\<rparr>,
        Some \<lparr>symoff = 0x3100, stroff = 0x3200\<rparr>,
        Some \<lparr>nindirectsyms = 1, indirectsymoff = 0x3300\<rparr>)"
    by (simp add: demo_image_def demo_linkedit_cmd_def demo_symtab_cmd_def
          demo_dysymtab_cmd_def demo_data_cmd_def SEG_LINKEDIT_def NUL_def)
  have h3: "nindirectsyms \<lparr>nindirectsyms = 1, indirectsymoff = 0x3300\<rparr> \<noteq> 0" by simp
  have h4: "small_chain demo_chain" by (simp add: small_chain_def demo_chain_def)
  have h5: "small_section demo_section" by (simp add: small_section_def demo_section_def)
  have n: "slot_count_spec demo_section = 1"
    by (simp add: slot_count_spec_def demo_section_def)
  have out: "(0x108008 :: addr) \<notin> replaced ` set (chain_requests demo_chain)"
    by (simp add: chain_requests_def demo_chain_def)
  have slot: "(0x108008 :: addr) \<noteq> word_of_int (slot_address_spec demo_slide demo_section 0)"
    by (simp add: slot_address_spec_def demo_slide_def demo_section_def)
  have slot0: "word_of_int (slot_address_spec demo_slide demo_section 0) = (0x108000 :: addr)"
    by (simp add: slot_address_spec_def demo_slide_def demo_section_def)
  have base: "linkedit_base_spec demo_slide
                \<lparr>segname = ''__LINKEDIT'', vmaddr = 0x4000, fileoff = 0x3000, sects = []\<rparr>
              = 0x101000"
    by (simp add: linkedit_base_spec_def demo_slide_def)
  note T = table_addresses [OF h1 h2 h3, of demo_chain demo_slide demo_memory demo_section
        "0x104100" "0x104200" "0x104300" demo_memory]
  have c1: "rebind_symbols_for_image demo_chain demo_image demo_slide demo_memory =
       segments_loop demo_chain demo_slide 0x104100 0x104200 0x104300
         (load_commands demo_image) demo_memory"
    using T by (simp add: base table_address_spec_def)
  have fields: "sect_segname demo_section = ''__DATA_CONST''"
    "sect_reserved1 demo_section = 0" "sect_size demo_section = 8"
    by (simp_all add: demo_section_def)
  have mem: "u32_mem (mprotect a len p demo_memory) 0x104300 = 5"
    "u32_mem (mprotect a len p demo_memory) 0x104150 = 0x10"
    "str_mem (mprotect a len p demo_memory) 0x104210 = ''_open''" for a len p
    by (simp_all add: mprotect_def demo_memory_def)
  have eq: "perform_rebinding_with_section demo_chain demo_section demo_slide
              0x104100 0x104200 0x104300 demo_memory =
            (case chain_loop ''_open'' 0x108000 demo_chain
                    (mprotect 0x108000 8 (PROT_READ OR PROT_WRITE) demo_memory) of
               None \<Rightarrow> None
             | Some st2 \<Rightarrow>
                 Some (mprotect 0x108000 8
                         (restore_protection (get_protection (head_ptr demo_chain) demo_memory))
                         st2))"
    unfolding T [THEN conjunct2, THEN conjunct1, rule_format, OF h5]
    by (simp add: n slot0 fields mem Let_def SEG_DATA_CONST_def NUL_def is_sentinel_def
          INDIRECT_SYMBOL_ABS_def INDIRECT_SYMBOL_LOCAL_def
          del: chain_loop.simps split: option.splits)
  have c2: "slot_and_outputs
        (perform_rebinding_with_section demo_chain demo_section demo_slide
           0x104100 0x104200 0x104300 demo_memory) = Some (0xA200, 0, 0xF000)"
    unfolding eq
    by (simp add: slot_and_outputs_def demo_chain_def demo_memory_def mprotect_def
          rebindings_loop.simps name_matches_def symbol_name_longer_than_1_def
          apply_rebinding_def NUL_def NULL_def Let_def)
  have c3: "\<exists>st2. perform_rebinding_with_section demo_chain demo_section demo_slide
                0x104100 0x104200 0x104300 demo_memory = Some st2 \<and>
             ptr_mem st2 0x108008 = ptr_mem demo_memory 0x108008"
  proof -
    obtain st2 where
      r: "perform_rebinding_with_section demo_chain demo_section demo_slide
            0x104100 0x104200 0x104300 demo_memory = Some st2" and
      fr: "\<forall>a. a \<notin> replaced ` set (chain_requests demo_chain) \<and>
               (\<forall>k < slot_count_spec demo_section.
                   a \<noteq> word_of_int (slot_address_spec demo_slide demo_section k)) \<longrightarrow>
               ptr_mem st2 a = ptr_mem demo_memory a"
      using T [THEN conjunct2, THEN conjunct2] h4 h5 by blast
    have "ptr_mem st2 0x108008 = ptr_mem demo_memory 0x108008"
      using fr out slot by (auto simp: n)
    then show ?thesis using r by blast
  qed
  show ?thesis
    using h1 h2 h4 h5 n slot0 c1 c2 c3 by simp
qed



text \<open>
  C10. When an allocation fails inside \<^verbatim>\<open>rebind_symbols_image\<close>, the private chain stays
  empty, the pass over the image still runs and writes no pointer cell, the status is
  \<open>- 1\<close> and no block stays allocated; and whether the allocations fail or not, the
  call returns with the global chain and the blocks in use as they were before.
\<close>

theorem rebind_symbols_image_private_chain:
  assumes "small_image header"
  shows "(fst (malloc st) = NULL \<or> fst (malloc (snd (malloc st))) = NULL \<longrightarrow>
            fst (snd (prepend_rebindings [] rs st)) = [] \<and>
            (\<exists>st'. rebind_symbols_image header slide rs st = Some (- 1, st') \<and>
                   ptr_mem st' = ptr_mem st \<and> allocated st' = allocated st \<and>
                   rebindings_head st' = rebindings_head st))
         \<and> (length rs < 2 ^ 32 \<longrightarrow>
              (\<exists>retval st'. rebind_symbols_image header slide rs st = Some (retval, st') \<and>
                   allocated st' = allocated st \<and>
                   rebindings_head st' = rebindings_head st))"
proof -
  have fail: "\<exists>st'. rebind_symbols_image header slide rs st = Some (- 1, st') \<and>
                   ptr_mem st' = ptr_mem st \<and> allocated st' = allocated st \<and>
                   rebindings_head st' = rebindings_head st"
    and empty: "fst (snd (prepend_rebindings [] rs st)) = []"
    if f: "fst (malloc st) = NULL \<or> fst (malloc (snd (malloc st))) = NULL"
  proof -
    obtain st1 where
      p: "prepend_rebindings [] rs st = (- 1, [], st1)" and
      m1: "ptr_mem st1 = ptr_mem st" "allocated st1 = allocated st"
          "rebindings_head st1 = rebindings_head st"
      using prepend_rebindings_fails [OF f, of "[]" rs] by blast
    have sc: "small_chain []" by (simp add: small_chain_def)
    obtain st2 where
      r: "rebind_symbols_for_image [] header slide st1 = Some st2" and
      s2: "same_but_memory st1 st2" and
      p2: "ptr_mem st2 = ptr_mem st1"
      using image_pass_total [OF sc assms, of slide st1] by (auto simp: chain_requests_def)
    show "\<exists>st'. rebind_symbols_image header slide rs st = Some (- 1, st') \<and>
                   ptr_mem st' = ptr_mem st \<and> allocated st' = allocated st \<and>
                   rebindings_head st' = rebindings_head st"
      using p r s2 p2 m1
      by (simp add: rebind_symbols_image_def head_ptr_def free_def same_but_memory_def)
    show "fst (snd (prepend_rebindings [] rs st)) = []"
      using p by simp
  qed
  have any: "\<exists>retval st'. rebind_symbols_image header slide rs st = Some (retval, st') \<and>
                   allocated st' = allocated st \<and>
                   rebindings_head st' = rebindings_head st"
    if len: "length rs < 2 ^ 32"
  proof (cases "fst (malloc st) = NULL \<or> fst (malloc (snd (malloc st))) = NULL")
    case True
    then show ?thesis using fail by blast
  next
    case False
    obtain a b st1 where
      p: "prepend_rebindings [] rs st =
             (0, [\<lparr>entry_addr = a, rebindings_addr = b, rebindings = rs\<rparr>], st1)" and
      nz: "a \<noteq> NULL" "b \<noteq> NULL" and
      m1: "allocated st1 = b # a # allocated st" "rebindings_head st1 = rebindings_head st"
      using prepend_rebindings_succeeds [OF False, of "[]" rs] by blast
    have sc: "small_chain [\<lparr>entry_addr = a, rebindings_addr = b, rebindings = rs\<rparr>]"
      using len by (simp add: small_chain_def)
    obtain st2 where
      r: "rebind_symbols_for_image [\<lparr>entry_addr = a, rebindings_addr = b, rebindings = rs\<rparr>]
            header slide st1 = Some st2" and
      s2: "same_but_memory st1 st2"
      using image_pass_total [OF sc assms, of slide st1] by blast
    show ?thesis
      using p r s2 m1 nz
      by (simp add: rebind_symbols_image_def head_ptr_def free_def same_but_memory_def)
  qed
  show ?thesis using fail empty any by blast
qed


theorem rebind_symbols_image_private_chain_witness:
  "small_image demo_image
   \<and> fst (malloc (demo_registered\<lparr>malloc_results := []\<rparr>)) = NULL
   \<and> (\<exists>st'. rebind_symbols_image demo_image demo_slide
               [\<lparr>name = ''open'', replacement = 0xA400, replaced = 0x9020\<rparr>]
               (demo_registered\<lparr>malloc_results := []\<rparr>) = Some (- 1, st') \<and>
            ptr_mem st' 0x108000 = 0xF000 \<and> rebindings_head st' = demo_chain \<and>
            allocated st' = [0x7020, 0x7040, 0x7000, 0x7010])
   \<and> length [\<lparr>name = ''open'', replacement = 0xA400, replaced = 0x9020\<rparr>] < 2 ^ 32
   \<and> (\<exists>retval st'. rebind_symbols_image demo_image demo_slide
               [\<lparr>name = ''open'', replacement = 0xA400, replaced = 0x9020\<rparr>]
               (demo_registered\<lparr>malloc_results := [0x7060, 0x7080]\<rparr>) = Some (retval, st') \<and>
            rebindings_head st' = demo_chain \<and>
            allocated st' = [0x7020, 0x7040, 0x7000, 0x7010])"
proof -
  have small: "small_image demo_image"
    by (simp add: small_image_def demo_image_def demo_linkedit_cmd_def demo_symtab_cmd_def
          demo_dysymtab_cmd_def demo_data_cmd_def small_section_def demo_section_def)
  have f: "fst (malloc (demo_registered\<lparr>malloc_results := []\<rparr>)) = NULL"
    by (simp add: malloc_def)
  have v: "ptr_mem demo_registered 0x108000 = 0xF000"
    "rebindings_head demo_registered = demo_chain"
    "allocated demo_registered = [0x7020, 0x7040, 0x7000, 0x7010]"
    by (simp_all add: demo_registered_def demo_memory_def)
  have len: "length [\<lparr>name = ''open'', replacement = 0xA400, replaced = 0x9020 :: addr\<rparr>] < 2 ^ 32"
    by simp
  show ?thesis
    using small f len
      rebind_symbols_image_private_chain
        [OF small, of "demo_registered\<lparr>malloc_results := []\<rparr>"
           "[\<lparr>name = ''open'', replacement = 0xA400, replaced = 0x9020\<rparr>]" demo_slide]
      rebind_symbols_image_private_chain
        [OF small, of "demo_registered\<lparr>malloc_results := [0x7060, 0x7080]\<rparr>"
           "[\<lparr>name = ''open'', replacement = 0xA400, replaced = 0x9020\<rparr>]" demo_slide]
    by (auto simp: v)
qed


end
